theory Spec2Isabelle
  imports Complex_Main "HOL-Library.Product_Lexorder" "HOL-Library.AList"
begin

section \<open>Values, errors and arrays\<close>

text \<open>
  The tensor engine of AROMA (\<^verbatim>\<open>aroma/affine/integrands/__init__.py\<close> and
  \<^verbatim>\<open>aroma/util/sparse.py\<close>) is embedded as pure functions. Array entries are
  \<^typ>\<open>real\<close> numbers, so every sum and product is exact; coordinates are natural
  numbers. Every \<^verbatim>\<open>raise\<close> and every failing \<^verbatim>\<open>assert\<close> of the source is
  a value \<open>Inl e\<close> of a result type \<open>error + 'a\<close>.
\<close>

datatype error =
    AssertionError | NotImplementedError | KeyError | IndexError | ValueError
  | AttributeError | AxisError | TypeError

text \<open>Sequencing of results: the first failure wins, as an exception would.\<close>

fun sequence_err :: "(error + 'a) list \<Rightarrow> error + 'a list" where
  "sequence_err [] = Inr []"
| "sequence_err (Inl e # _) = Inl e"
| "sequence_err (Inr x # rs) =
     (case sequence_err rs of Inl e \<Rightarrow> Inl e | Inr xs \<Rightarrow> Inr (x # xs))"

text \<open>
  A dense numpy array, as nested lists: \<open>Scalar\<close> is a 0-d array and \<open>Array\<close> adds one
  leading axis. \<open>Array []\<close> is the empty vector, of shape \<open>(0,)\<close>; \<open>Empty sh\<close> is an array
  whose first axis has length zero and whose other axes have the lengths \<open>sh\<close>, so that
  an array without entries keeps its shape.
\<close>

datatype ndarray = Scalar real | Array "ndarray list" | Empty "nat list"

fun ndim :: "ndarray \<Rightarrow> nat" where
  "ndim (Scalar _) = 0"
| "ndim (Array xs) = Suc (case xs of [] \<Rightarrow> 0 | x # _ \<Rightarrow> ndim x)"
| "ndim (Empty sh) = Suc (length sh)"

fun shape_of :: "ndarray \<Rightarrow> nat list" where
  "shape_of (Scalar _) = []"
| "shape_of (Array []) = [0]"
| "shape_of (Array (x # xs)) = Suc (length xs) # shape_of x"
| "shape_of (Empty sh) = 0 # sh"

text \<open>
  Arrays given by their entries: a vector, a matrix from its rows (at least one) and a
  rank-3 array from its matrices (at least one).
\<close>

definition vector :: "real list \<Rightarrow> ndarray" where
  "vector v = Array (map Scalar v)"

definition matrix :: "real list list \<Rightarrow> ndarray" where
  "matrix rows = Array (map vector rows)"

definition tensor3 :: "real list list list \<Rightarrow> ndarray" where
  "tensor3 t = Array (map matrix t)"

text \<open>
  A scipy sparse matrix in compressed-row form, \<^verbatim>\<open>csr_matrix((data, indices, indptr), shape)\<close>:
  the entries of row \<open>i\<close> are at the positions \<open>indptr ! i ..< indptr ! (i + 1)\<close> of
  \<open>indices\<close> (their columns) and \<open>data\<close> (their values); entries of one row that repeat a
  column add up.
\<close>

record csr_matrix =
  data :: "real list"
  indices :: "nat list"
  indptr :: "nat list"
  shape :: "nat \<times> nat"

section \<open>The numpy and scipy primitives the source calls\<close>

text \<open>\<^verbatim>\<open>np.max(a)\<close>: the largest element; \<^verbatim>\<open>ValueError\<close> on an empty array.\<close>

definition np_max :: "nat list \<Rightarrow> error + nat" where
  "np_max a = (case a of [] \<Rightarrow> Inl ValueError | x # xs \<Rightarrow> Inr (fold max xs x))"

text \<open>\<^verbatim>\<open>a[idx]\<close> for an integer array \<open>idx\<close>: \<^verbatim>\<open>IndexError\<close> when a position is out of range.\<close>

definition fancy :: "'a list \<Rightarrow> nat list \<Rightarrow> error + 'a list" where
  "fancy a idx =
     (if list_all (\<lambda>k. k < length a) idx then Inr (map (nth a) idx) else Inl IndexError)"

text \<open>\<^verbatim>\<open>a[msk]\<close> for a boolean array \<open>msk\<close>, which must have the length of \<open>a\<close>.\<close>

definition bool_index :: "'a list \<Rightarrow> bool list \<Rightarrow> error + 'a list" where
  "bool_index a msk =
     (if length a = length msk then Inr (map fst (filter snd (zip a msk)))
      else Inl IndexError)"

text \<open>\<^verbatim>\<open>np.nonzero\<close> of a value array and of a boolean array.\<close>

definition nonzero :: "real list \<Rightarrow> nat list" where
  "nonzero a = filter (\<lambda>k. a ! k \<noteq> 0) [0..<length a]"

definition nonzero_mask :: "bool list \<Rightarrow> nat list" where
  "nonzero_mask msk = filter (nth msk) [0..<length msk]"

text \<open>\<^verbatim>\<open>a[1:] != a[:-1]\<close>, elementwise.\<close>

definition neq_adj :: "nat list \<Rightarrow> bool list" where
  "neq_adj a = map2 (\<lambda>x y. x \<noteq> y) (tl a) (butlast a)"

text \<open>
  \<^verbatim>\<open>np.lexsort((row, col))\<close>: the positions \<open>0 ..< n\<close> in the stable order of the keys,
  the last key (\<open>col\<close>) being the primary one. The keys must have one length.
\<close>

definition lexsort :: "nat list \<Rightarrow> nat list \<Rightarrow> error + nat list" where
  "lexsort row col =
     (if length row = length col
      then Inr (sort_key (\<lambda>k. (col ! k, row ! k)) [0..<length row])
      else Inl ValueError)"

definition lexsort1 :: "nat list \<Rightarrow> nat list" where
  "lexsort1 inds = sort_key (\<lambda>k. inds ! k) [0..<length inds]"

text \<open>
  \<^verbatim>\<open>np.add.reduceat(a, inds)\<close>: entry \<open>m\<close> is the sum of \<open>a[inds[m]:inds[m+1]]\<close>, or
  \<open>a[inds[m]]\<close> when \<open>inds[m] \<ge> inds[m+1]\<close>; the last entry sums to the end of \<open>a\<close>.
  It raises when a position is out of range. The entries are real numbers: the rounding
  of \<^verbatim>\<open>float64\<close>, and with it the order in which numpy adds the entries of a segment, is
  not represented.
\<close>

fun reduceat_segments :: "real list \<Rightarrow> nat list \<Rightarrow> real list" where
  "reduceat_segments a [] = []"
| "reduceat_segments a [i] = [sum_list (drop i a)]"
| "reduceat_segments a (i # j # rest) =
     (if i < j then sum_list (take (j - i) (drop i a)) else a ! i)
     # reduceat_segments a (j # rest)"

definition reduceat :: "real list \<Rightarrow> nat list \<Rightarrow> error + real list" where
  "reduceat a inds =
     (if list_all (\<lambda>i. i < length a) inds then Inr (reduceat_segments a inds)
      else Inl IndexError)"

text \<open>
  \<^verbatim>\<open>sptools.coo_tocsr(M, N, nnz, Ai, Aj, Ax, Bp, Bj, Bx)\<close> of scipy: a stable counting
  sort of the first \<open>nnz\<close> coordinate triples by row. \<open>Bp ! i\<close> is the number of triples
  in rows below \<open>i\<close>; \<open>Bj\<close> and \<open>Bx\<close> hold the columns and values row after row, in their
  input order within a row. (The routine does not check that the rows are below \<open>M\<close>;
  the model leaves such triples out.)
\<close>

definition coo_triples :: "nat \<Rightarrow> nat list \<Rightarrow> nat list \<Rightarrow> real list \<Rightarrow> (nat \<times> nat \<times> real) list" where
  "coo_triples nnz Ai Aj Ax = take nnz (zip Ai (zip Aj Ax))"

definition row_group :: "(nat \<times> nat \<times> real) list \<Rightarrow> nat \<Rightarrow> (nat \<times> real) list" where
  "row_group ts i = map snd (filter (\<lambda>t. fst t = i) ts)"

definition coo_tocsr ::
  "nat \<Rightarrow> nat \<Rightarrow> nat \<Rightarrow> nat list \<Rightarrow> nat list \<Rightarrow> real list \<Rightarrow> nat list \<times> nat list \<times> real list" where
  "coo_tocsr M N nnz Ai Aj Ax =
     (let ts = coo_triples nnz Ai Aj Ax;
          Bp = map (\<lambda>i. length (concat (map (row_group ts) [0..<i]))) [0..<Suc M];
          Bj = concat (map (\<lambda>i. map fst (row_group ts i)) [0..<M]);
          Bx = concat (map (\<lambda>i. map snd (row_group ts i)) [0..<M])
      in (Bp, Bj, Bx))"

text \<open>Reading a compressed-row matrix: the entries of a row, one entry, the dense array.\<close>

definition csr_row_entries :: "csr_matrix \<Rightarrow> nat \<Rightarrow> (nat \<times> real) list" where
  "csr_row_entries A i =
     (let p = indptr A ! i; q = indptr A ! Suc i
      in zip (take (q - p) (drop p (indices A))) (take (q - p) (drop p (data A))))"

definition csr_entry :: "csr_matrix \<Rightarrow> nat \<Rightarrow> nat \<Rightarrow> real" where
  "csr_entry A i j = sum_list (map snd (filter (\<lambda>e. fst e = j) (csr_row_entries A i)))"

definition csr_toarray :: "csr_matrix \<Rightarrow> real list list" where
  "csr_toarray A =
     map (\<lambda>i. map (\<lambda>j. csr_entry A i j) [0..<snd (shape A)]) [0..<fst (shape A)]"

section \<open>The sparse assemblers (\<^verbatim>\<open>aroma/util/sparse.py\<close>)\<close>

record CSRAssembler =
  csr_row :: "nat list"
  csr_col :: "nat list"
  csr_order :: "nat list"
  csr_inds :: "nat list"
  csr_shape :: "nat \<times> nat"

text \<open>
  \<^verbatim>\<open>CSRAssembler.__init__(shape, row, col)\<close>. The shape is a pair, so
  \<^verbatim>\<open>assert len(shape) == 2\<close> holds by type; the index dtype chosen for \<open>row\<close> and
  \<open>col\<close> does not change their values and is left out.
\<close>

definition CSRAssembler_init :: "nat \<times> nat \<Rightarrow> nat list \<Rightarrow> nat list \<Rightarrow> error + CSRAssembler" where
  "CSRAssembler_init shp row col =
     (case np_max row of Inl e \<Rightarrow> Inl e | Inr mr \<Rightarrow>
      if \<not> mr < fst shp then Inl AssertionError else
      case np_max col of Inl e \<Rightarrow> Inl e | Inr mc \<Rightarrow>
      if \<not> mc < snd shp then Inl AssertionError else
      case lexsort row col of Inl e \<Rightarrow> Inl e | Inr order \<Rightarrow>
      case fancy row order of Inl e \<Rightarrow> Inl e | Inr row1 \<Rightarrow>
      case fancy col order of Inl e \<Rightarrow> Inl e | Inr col1 \<Rightarrow>
      let msk = True # map2 (\<lambda>a b. a \<or> b) (neq_adj row1) (neq_adj col1) in
      case bool_index row1 msk of Inl e \<Rightarrow> Inl e | Inr row2 \<Rightarrow>
      case bool_index col1 msk of Inl e \<Rightarrow> Inl e | Inr col2 \<Rightarrow>
      Inr \<lparr>csr_row = row2, csr_col = col2, csr_order = order,
           csr_inds = nonzero_mask msk, csr_shape = shp\<rparr>)"

text \<open>\<^verbatim>\<open>CSRAssembler.__call__(data)\<close>.\<close>

definition CSRAssembler_call :: "CSRAssembler \<Rightarrow> real list \<Rightarrow> error + csr_matrix" where
  "CSRAssembler_call self dat =
     (case fancy dat (csr_order self) of Inl e \<Rightarrow> Inl e | Inr d1 \<Rightarrow>
      case reduceat d1 (csr_inds self) of Inl e \<Rightarrow> Inl e | Inr d2 \<Rightarrow>
      let (M, N) = csr_shape self;
          (Bp, Bj, Bx) = coo_tocsr M N (length (csr_row self)) (csr_row self) (csr_col self) d2
      in Inr \<lparr>data = Bx, indices = Bj, indptr = Bp, shape = csr_shape self\<rparr>)"

record VectorAssembler =
  vec_row :: "nat list"
  vec_order :: "nat list"
  vec_inds :: "nat list"
  vec_shape :: nat

text \<open>\<^verbatim>\<open>VectorAssembler.__init__(shape, inds)\<close>, the shape being a 1-tuple.\<close>

definition VectorAssembler_init :: "nat \<Rightarrow> nat list \<Rightarrow> error + VectorAssembler" where
  "VectorAssembler_init shp inds =
     (case np_max inds of Inl e \<Rightarrow> Inl e | Inr mi \<Rightarrow>
      if \<not> mi < shp then Inl AssertionError else
      let order = lexsort1 inds in
      case fancy inds order of Inl e \<Rightarrow> Inl e | Inr inds1 \<Rightarrow>
      let msk = True # neq_adj inds1 in
      case bool_index inds1 msk of Inl e \<Rightarrow> Inl e | Inr row \<Rightarrow>
      Inr \<lparr>vec_row = row, vec_order = order, vec_inds = nonzero_mask msk, vec_shape = shp\<rparr>)"

text \<open>
  \<^verbatim>\<open>VectorAssembler.__call__(data)\<close>: \<^verbatim>\<open>retval[self.row] = data\<close> writes entry by
  entry into a zero vector, and raises when a row is out of range or the lengths differ.
\<close>

definition VectorAssembler_call :: "VectorAssembler \<Rightarrow> real list \<Rightarrow> error + real list" where
  "VectorAssembler_call self dat =
     (case fancy dat (vec_order self) of Inl e \<Rightarrow> Inl e | Inr d1 \<Rightarrow>
      case reduceat d1 (vec_inds self) of Inl e \<Rightarrow> Inl e | Inr d2 \<Rightarrow>
      if \<not> list_all (\<lambda>r. r < vec_shape self) (vec_row self) then Inl IndexError
      else if length d2 \<noteq> length (vec_row self) \<and> length d2 \<noteq> 1 then Inl ValueError
      else Inr (fold (\<lambda>(r, v) acc. acc[r := v])
                  (zip (vec_row self) (if length d2 = 1 then replicate (length (vec_row self)) (hd d2) else d2))
                  (replicate (vec_shape self) 0)))"

section \<open>Dense arrays: broadcasting and summing\<close>

definition map_err :: "('a \<Rightarrow> 'b) \<Rightarrow> error + 'a \<Rightarrow> error + 'b" where
  "map_err f r = (case r of Inl e \<Rightarrow> Inl e | Inr x \<Rightarrow> Inr (f x))"

text \<open>
  Reading one entry by its indices, and building the array of a given shape from its
  entries.
\<close>

fun elem :: "ndarray \<Rightarrow> nat list \<Rightarrow> real" where
  "elem (Scalar x) idx = x"
| "elem (Array xs) (i # idx) = (if i < length xs then elem (xs ! i) idx else 0)"
| "elem _ _ = 0"

fun build :: "nat list \<Rightarrow> (nat list \<Rightarrow> real) \<Rightarrow> ndarray" where
  "build [] f = Scalar (f [])"
| "build (n # sh) f =
     (if n = 0 then (if sh = [] then Array [] else Empty sh)
      else Array (map (\<lambda>i. build sh (\<lambda>idx. f (i # idx))) [0..<n]))"

text \<open>\<^verbatim>\<open>cont[..., _]\<close> adds a last axis of length one, \<^verbatim>\<open>cont[_, ...]\<close> a first one.\<close>

definition newaxis_back :: "ndarray \<Rightarrow> ndarray" where
  "newaxis_back a = build (shape_of a @ [1]) (\<lambda>idx. elem a (butlast idx))"

definition newaxis_front :: "ndarray \<Rightarrow> ndarray" where
  "newaxis_front a = Array [a]"

text \<open>
  \<^verbatim>\<open>a * b\<close> with numpy's broadcasting. The shapes are aligned at their last axes, the
  shorter one padded with ones in front; two lengths fit when they are equal or one of
  them is 1, and the product raises \<^verbatim>\<open>ValueError\<close> when some pair does not fit. Each
  entry of the result is the product of the entries of \<open>a\<close> and \<open>b\<close> at its indices, an
  axis of length 1 being read at index 0.
\<close>

definition bdim :: "nat \<Rightarrow> nat \<Rightarrow> nat option" where
  "bdim m n = (if m = n then Some m else if m = 1 then Some n else if n = 1 then Some m else None)"

definition bshape :: "nat list \<Rightarrow> nat list \<Rightarrow> nat list option" where
  "bshape sa sb =
     (let n = max (length sa) (length sb)
      in those (map (\<lambda>(m, n). bdim m n)
                 (zip (replicate (n - length sa) 1 @ sa) (replicate (n - length sb) 1 @ sb))))"

definition bindex :: "nat list \<Rightarrow> nat list \<Rightarrow> nat list" where
  "bindex sa idx =
     map (\<lambda>(d, i). if d = 1 then 0 else i) (zip sa (drop (length idx - length sa) idx))"

definition bmul :: "ndarray \<Rightarrow> ndarray \<Rightarrow> error + ndarray" where
  "bmul a b =
     (case bshape (shape_of a) (shape_of b) of
        None \<Rightarrow> Inl ValueError
      | Some sh \<Rightarrow>
          Inr (build sh (\<lambda>idx. elem a (bindex (shape_of a) idx) * elem b (bindex (shape_of b) idx))))"

text \<open>
  \<^verbatim>\<open>obj.sum(axes)\<close>: the entries along an axis are added up and the axis disappears;
  an axis the array does not have raises. The axes of the tuple are removed from the last
  to the first, so that each number still names the axis it named in \<open>obj\<close>.
\<close>

definition sum_axis :: "nat \<Rightarrow> ndarray \<Rightarrow> error + ndarray" where
  "sum_axis k a =
     (let sh = shape_of a
      in if \<not> k < length sh then Inl AxisError
         else Inr (build (take k sh @ drop (Suc k) sh)
                     (\<lambda>idx. sum_list (map (\<lambda>t. elem a (take k idx @ t # drop k idx))
                                        [0..<sh ! k]))))"

fun np_sum :: "ndarray \<Rightarrow> nat list \<Rightarrow> error + ndarray" where
  "np_sum obj [] = Inr obj"
| "np_sum obj (k # ks) =
     (case np_sum obj ks of Inl e \<Rightarrow> Inl e | Inr obj' \<Rightarrow> sum_axis k obj')"

text \<open>
  The products of a sparse matrix with a dense vector: \<^verbatim>\<open>A.dot(v)\<close> and
  \<^verbatim>\<open>A.T.dot(v)\<close> of scipy, and \<^verbatim>\<open>u.dot(v)\<close> of two numpy vectors. Each raises
  \<^verbatim>\<open>ValueError\<close> when the dimensions do not match.
\<close>

definition csr_dot :: "csr_matrix \<Rightarrow> real list \<Rightarrow> error + real list" where
  "csr_dot A v =
     (if length v \<noteq> snd (shape A) then Inl ValueError
      else Inr (map (\<lambda>i. sum_list (map (\<lambda>(c, x). x * v ! c) (csr_row_entries A i)))
                  [0..<fst (shape A)]))"

definition csr_T_dot :: "csr_matrix \<Rightarrow> real list \<Rightarrow> error + real list" where
  "csr_T_dot A v =
     (if length v \<noteq> fst (shape A) then Inl ValueError
      else Inr (map (\<lambda>j. sum_list (map (\<lambda>i. csr_entry A i j * v ! i) [0..<fst (shape A)]))
                  [0..<snd (shape A)]))"

definition vec_dot :: "real list \<Rightarrow> real list \<Rightarrow> error + real" where
  "vec_dot u v =
     (if length u \<noteq> length v then Inl ValueError
      else Inr (sum_list (map (\<lambda>(a, b). a * b) (zip u v))))"

section \<open>The Integrand family (\<^verbatim>\<open>aroma/affine/integrands/__init__.py\<close>)\<close>

datatype dtype = int8 | int16 | int32 | int64

datatype assembler = CSR CSRAssembler | Vec VectorAssembler

type_synonym props = "(string \<times> real) list"

text \<open>A contraction: one entry per axis, \<open>None\<close> or a vector.\<close>

type_synonym contraction = "real list option list"

text \<open>
  The attributes of a \<^verbatim>\<open>COOTensorIntegrand\<close>. \<open>coo_ndim\<close> and \<open>coo_properties\<close>
  are \<open>None\<close> while the object has no such attribute. \<open>coo_assemblers\<close> is the
  dictionary from axis tuples to assemblers, in insertion order.
\<close>

record coo_tensor =
  coo_shape :: "nat list"
  coo_ndim :: "nat option"
  coo_data :: "real list"
  coo_indices :: "nat list list"
  coo_idx_dtype :: dtype
  coo_assemblers :: "(nat list \<times> assembler) list"
  coo_properties :: "props option"

datatype integrand =
    NumpyArrayIntegrand ndarray props
  | ScipyArrayIntegrand csr_matrix props
  | COOTensorIntegrand coo_tensor

text \<open>
  The objects that reach \<^verbatim>\<open>Integrand.make\<close> and that the operations return: a dense
  array, a bare scalar, a sparse matrix, an Integrand, or an object of any other type
  (named by a string).
\<close>

datatype pyobj =
    Ndarray ndarray | PyFloat real | Spmatrix csr_matrix | IntegrandObj integrand
  | OtherObj string

subsection \<open>Registry and factory\<close>

text \<open>
  The classes that the metaclass enters into \<^verbatim>\<open>Integrand.subclasses\<close> when the module
  is loaded, in the order of their definition.
\<close>

datatype cls =
    C_ThinWrapperIntegrand | C_NumpyArrayIntegrand | C_ScipyArrayIntegrand
  | C_COOTensorIntegrand

definition subclasses :: "cls list" where
  "subclasses =
     [C_ThinWrapperIntegrand, C_NumpyArrayIntegrand, C_ScipyArrayIntegrand,
      C_COOTensorIntegrand]"

text \<open>
  \<^verbatim>\<open>accepts\<close>: \<^verbatim>\<open>ThinWrapperIntegrand\<close> and \<^verbatim>\<open>COOTensorIntegrand\<close> inherit the
  method of \<^verbatim>\<open>Integrand\<close>, which returns \<^verbatim>\<open>False\<close>.

  Modelled from the spec: \<^verbatim>\<open>util._SCALARS\<close>, which is not among the sources, is the
  tuple of bare scalar types that the dense wrapper promotes to 0-d arrays (\<open>PyFloat\<close>).
\<close>

fun accepts :: "cls \<Rightarrow> pyobj \<Rightarrow> bool" where
  "accepts C_NumpyArrayIntegrand (Ndarray _) = True"
| "accepts C_NumpyArrayIntegrand (PyFloat _) = True"
| "accepts C_ScipyArrayIntegrand (Spmatrix _) = True"
| "accepts _ _ = False"

definition get_subclass :: "cls list \<Rightarrow> pyobj \<Rightarrow> cls option" where
  "get_subclass subs obj = find (\<lambda>subclass. accepts subclass obj) subs"

fun isinstance_Integrand :: "pyobj \<Rightarrow> bool" where
  "isinstance_Integrand (IntegrandObj _) = True"
| "isinstance_Integrand _ = False"

definition acceptable :: "cls list \<Rightarrow> pyobj \<Rightarrow> bool" where
  "acceptable subs obj = (isinstance_Integrand obj \<or> get_subclass subs obj \<noteq> None)"

text \<open>
  \<^verbatim>\<open>subclass(obj)\<close> for a class that accepted \<open>obj\<close>; \<^verbatim>\<open>NumpyArrayIntegrand\<close> turns
  a scalar into a 0-d array. \<^verbatim>\<open>make\<close> calls no class on an object it did not accept.
\<close>

fun construct :: "cls \<Rightarrow> pyobj \<Rightarrow> error + integrand" where
  "construct C_NumpyArrayIntegrand (Ndarray a) = Inr (NumpyArrayIntegrand a [])"
| "construct C_NumpyArrayIntegrand (PyFloat x) = Inr (NumpyArrayIntegrand (Scalar x) [])"
| "construct C_ScipyArrayIntegrand (Spmatrix A) = Inr (ScipyArrayIntegrand A [])"
| "construct _ _ = Inl TypeError"

definition make :: "cls list \<Rightarrow> pyobj \<Rightarrow> error + integrand" where
  "make subs obj =
     (case obj of IntegrandObj x \<Rightarrow> Inr x
      | _ \<Rightarrow>
        if \<not> acceptable subs obj then Inl NotImplementedError
        else (case get_subclass subs obj of
                None \<Rightarrow> Inl TypeError
              | Some subclass \<Rightarrow> construct subclass obj))"

subsection \<open>\<^verbatim>\<open>NumpyArrayIntegrand\<close>\<close>

text \<open>
  The loop of \<^verbatim>\<open>_contract\<close>: \<open>nd\<close> is \<^verbatim>\<open>self.ndim\<close>, \<open>i\<close> the running axis. A
  contraction entry is a vector, so \<^verbatim>\<open>assert cont.ndim == 1\<close> holds by type.
\<close>

fun contract_loop ::
  "nat \<Rightarrow> nat \<Rightarrow> contraction \<Rightarrow> ndarray \<Rightarrow> nat list \<Rightarrow> error + ndarray \<times> nat list" where
  "contract_loop nd i [] obj axes = Inr (obj, axes)"
| "contract_loop nd i (None # cs) obj axes = contract_loop nd (Suc i) cs obj axes"
| "contract_loop nd i (Some c # cs) obj axes =
     (let cont1 = (newaxis_front ^^ i) (vector c);
          cont2 = (newaxis_back ^^ (nd - ndim cont1)) cont1
      in case bmul obj cont2 of
           Inl e \<Rightarrow> Inl e
         | Inr obj' \<Rightarrow> contract_loop nd (Suc i) cs obj' (axes @ [i]))"

definition Numpy_contract_raw :: "ndarray \<Rightarrow> contraction \<Rightarrow> error + ndarray" where
  "Numpy_contract_raw obj contraction =
     (case contract_loop (ndim obj) 0 contraction obj [] of
        Inl e \<Rightarrow> Inl e
      | Inr (obj', axes) \<Rightarrow> np_sum obj' axes)"

text \<open>
  \<^verbatim>\<open>get\<close> and \<^verbatim>\<open>contract\<close>. When every axis is summed, \<^verbatim>\<open>obj.sum\<close> returns a numpy
  scalar instead of a 0-d array; both are written \<open>Scalar x\<close> here, the value being the
  same.
\<close>

definition Numpy_get :: "ndarray \<Rightarrow> contraction \<Rightarrow> error + pyobj" where
  "Numpy_get obj contraction = map_err Ndarray (Numpy_contract_raw obj contraction)"

definition Numpy_contract :: "ndarray \<Rightarrow> contraction \<Rightarrow> error + integrand" where
  "Numpy_contract obj contraction =
     map_err (\<lambda>a. NumpyArrayIntegrand a []) (Numpy_contract_raw obj contraction)"

subsection \<open>\<^verbatim>\<open>ScipyArrayIntegrand\<close>\<close>

definition all_None :: "contraction \<Rightarrow> bool" where
  "all_None contraction = list_all (\<lambda>c. c = None) contraction"

text \<open>\<^verbatim>\<open>get\<close>: unpacking \<^verbatim>\<open>ca, cb = contraction\<close> needs exactly two entries.\<close>

definition Scipy_get :: "csr_matrix \<Rightarrow> contraction \<Rightarrow> error + pyobj" where
  "Scipy_get obj contraction =
     (if all_None contraction then Inr (Spmatrix obj)
      else case contraction of
        [ca, cb] \<Rightarrow>
          (case (ca, cb) of
             (None, None) \<Rightarrow> Inr (Spmatrix obj)
           | (None, Some b) \<Rightarrow> map_err (\<lambda>v. Ndarray (vector v)) (csr_dot obj b)
           | (Some a, None) \<Rightarrow> map_err (\<lambda>v. Ndarray (vector v)) (csr_T_dot obj a)
           | (Some a, Some b) \<Rightarrow>
               (case csr_dot obj b of
                  Inl e \<Rightarrow> Inl e
                | Inr w \<Rightarrow> map_err PyFloat (vec_dot a w)))
      | _ \<Rightarrow> Inl ValueError)"

text \<open>\<^verbatim>\<open>contract\<close>, with its two assertions.\<close>

definition Scipy_contract :: "csr_matrix \<Rightarrow> props \<Rightarrow> contraction \<Rightarrow> error + integrand" where
  "Scipy_contract obj ps contraction =
     (case contraction of
        [ca, cb] \<Rightarrow>
          (case (ca, cb) of
             (None, None) \<Rightarrow> Inr (ScipyArrayIntegrand obj ps)
           | (None, Some b) \<Rightarrow> map_err (\<lambda>v. NumpyArrayIntegrand (vector v) []) (csr_dot obj b)
           | (Some a, None) \<Rightarrow> map_err (\<lambda>v. NumpyArrayIntegrand (vector v) []) (csr_T_dot obj a)
           | (Some a, Some b) \<Rightarrow> Inl AssertionError)
      | _ \<Rightarrow> Inl AssertionError)"

subsection \<open>\<^verbatim>\<open>COOTensorIntegrand\<close>\<close>

definition int32_max :: int where
  "int32_max = 2147483647"

text \<open>
  \<^verbatim>\<open>all(np.max(i) <= np.iinfo(np.int32).max for i in indices)\<close>: the arrays are looked
  at in turn, up to the first one that does not fit.
\<close>

fun fits_int32 :: "nat list list \<Rightarrow> error + bool" where
  "fits_int32 [] = Inr True"
| "fits_int32 (i # rest) =
     (case np_max i of
        Inl e \<Rightarrow> Inl e
      | Inr m \<Rightarrow> if int m \<le> int32_max then fits_int32 rest else Inr False)"

text \<open>
  \<^verbatim>\<open>COOTensorIntegrand.__init__(shape, *args)\<close>: \<open>idx_args\<close> are the index arrays
  \<^verbatim>\<open>args[:-1]\<close> and \<open>vals\<close> is the value array \<^verbatim>\<open>args[-1]\<close>. Coordinates are below
  \<open>2^63\<close>, so \<^verbatim>\<open>astype\<close> keeps their values.
\<close>

definition COOTensorIntegrand_init ::
  "nat list \<Rightarrow> nat list list \<Rightarrow> real list \<Rightarrow> error + coo_tensor" where
  "COOTensorIntegrand_init shp idx_args vals =
     (if length shp \<noteq> 3 then Inl AssertionError
      else if length shp \<noteq> length idx_args then Inl AssertionError
      else
        let nz = nonzero vals in
        case sequence_err (map (\<lambda>arg. fancy arg nz) idx_args) of Inl e \<Rightarrow> Inl e | Inr inds \<Rightarrow>
        case fancy vals nz of Inl e \<Rightarrow> Inl e | Inr dat \<Rightarrow>
        case fits_int32 inds of Inl e \<Rightarrow> Inl e | Inr fits \<Rightarrow>
        case CSRAssembler_init (shp ! 0, shp ! 2) (inds ! 0) (inds ! 2) of Inl e \<Rightarrow> Inl e | Inr a1 \<Rightarrow>
        case CSRAssembler_init (shp ! 0, shp ! 1) (inds ! 0) (inds ! 1) of Inl e \<Rightarrow> Inl e | Inr a2 \<Rightarrow>
        case VectorAssembler_init (shp ! 0) (inds ! 0) of Inl e \<Rightarrow> Inl e | Inr a12 \<Rightarrow>
        Inr \<lparr>coo_shape = shp, coo_ndim = Some (length shp), coo_data = dat,
             coo_indices = inds, coo_idx_dtype = (if fits then int32 else int64),
             coo_assemblers = [([1], CSR a1), ([2], CSR a2), ([1, 2], Vec a12)],
             coo_properties = Some []\<rparr>)"

text \<open>The axes with a vector: \<^verbatim>\<open>tuple(i for i, c in enumerate(contraction) if c is not None)\<close>.\<close>

definition axes_of :: "contraction \<Rightarrow> nat list" where
  "axes_of contraction = filter (\<lambda>i. contraction ! i \<noteq> None) [0..<length contraction]"

text \<open>
  The loop \<^verbatim>\<open>data *= c[self.indices[i]]\<close> over the axes with a vector: it raises when
  the tensor has no axis \<open>i\<close>, when a coordinate is outside \<open>c\<close>, and when the lengths
  cannot be multiplied in place.
\<close>

fun coo_scale :: "nat list list \<Rightarrow> nat \<Rightarrow> contraction \<Rightarrow> real list \<Rightarrow> error + real list" where
  "coo_scale inds i [] dat = Inr dat"
| "coo_scale inds i (None # cs) dat = coo_scale inds (Suc i) cs dat"
| "coo_scale inds i (Some c # cs) dat =
     (if \<not> i < length inds then Inl IndexError
      else case fancy c (inds ! i) of
        Inl e \<Rightarrow> Inl e
      | Inr w \<Rightarrow>
          if length w = length dat
          then coo_scale inds (Suc i) cs (map (\<lambda>(d, x). d * x) (zip dat w))
          else if length w = 1
          then coo_scale inds (Suc i) cs (map (\<lambda>d. d * hd w) dat)
          else Inl ValueError)"

definition call_assembler :: "assembler \<Rightarrow> real list \<Rightarrow> error + pyobj" where
  "call_assembler a dat =
     (case a of
        CSR c \<Rightarrow> map_err Spmatrix (CSRAssembler_call c dat)
      | Vec v \<Rightarrow> map_err (\<lambda>r. Ndarray (vector r)) (VectorAssembler_call v dat))"

text \<open>\<^verbatim>\<open>_contract\<close>: \<^verbatim>\<open>self.assemblers[axes]\<close> raises \<^verbatim>\<open>KeyError\<close> for a missing key.\<close>

definition COO_contract_raw :: "coo_tensor \<Rightarrow> contraction \<Rightarrow> error + pyobj" where
  "COO_contract_raw self contraction =
     (if all_None contraction then Inr (IntegrandObj (COOTensorIntegrand self))
      else
        case coo_scale (coo_indices self) 0 contraction (coo_data self) of
          Inl e \<Rightarrow> Inl e
        | Inr dat \<Rightarrow>
            if axes_of contraction = [0, 1, 2] then Inr (PyFloat (sum_list dat))
            else (case map_of (coo_assemblers self) (axes_of contraction) of
                    None \<Rightarrow> Inl KeyError
                  | Some a \<Rightarrow> call_assembler a dat))"

definition COO_contract :: "coo_tensor \<Rightarrow> contraction \<Rightarrow> error + integrand" where
  "COO_contract self contraction =
     (case COO_contract_raw self contraction of
        Inl e \<Rightarrow> Inl e
      | Inr r \<Rightarrow> make subclasses r)"

text \<open>
  \<^verbatim>\<open>toarray\<close>: the coordinates \<open>(j, k)\<close> are flattened to \<open>j * shape[2] + k\<close>, the
  entries go through a scipy coordinate matrix, where equal coordinates add up, and the
  dense matrix is reshaped. Coordinates outside the shape raise \<^verbatim>\<open>ValueError\<close>.
\<close>

definition coo_toarray :: "coo_tensor \<Rightarrow> error + ndarray" where
  "coo_toarray self =
     (case (coo_shape self, coo_indices self) of
        ([s0, s1, s2], [i, j, k]) \<Rightarrow>
          if \<not> (length j = length k \<and> list_all (\<lambda>x. x < s1) j \<and> list_all (\<lambda>x. x < s2) k)
          then Inl ValueError
          else
            let flat_index = map (\<lambda>(x, y). x * s2 + y) (zip j k) in
            if \<not> (length i = length flat_index \<and> length (coo_data self) = length i
                   \<and> list_all (\<lambda>x. x < s0) i)
            then Inl ValueError
            else
              let entries = zip i (zip flat_index (coo_data self));
                  mat = (\<lambda>r c. sum_list (map (\<lambda>e. snd (snd e))
                          (filter (\<lambda>e. fst e = r \<and> fst (snd e) = c) entries)))
              in Inr (build [s0, s1, s2] (\<lambda>idx. mat (idx ! 0) (idx ! 1 * s2 + idx ! 2)))
      | _ \<Rightarrow> Inl ValueError)"

definition COO_get :: "coo_tensor \<Rightarrow> contraction \<Rightarrow> error + pyobj" where
  "COO_get self contraction =
     (case COO_contract_raw self contraction of
        Inl e \<Rightarrow> Inl e
      | Inr (IntegrandObj (COOTensorIntegrand t)) \<Rightarrow> map_err Ndarray (coo_toarray t)
      | Inr r \<Rightarrow> Inr r)"

text \<open>The operations, dispatched on the class of the receiver.\<close>

fun integrand_contract :: "integrand \<Rightarrow> contraction \<Rightarrow> error + integrand" where
  "integrand_contract (NumpyArrayIntegrand obj ps) c = Numpy_contract obj c"
| "integrand_contract (ScipyArrayIntegrand obj ps) c = Scipy_contract obj ps c"
| "integrand_contract (COOTensorIntegrand t) c = COO_contract t c"

fun integrand_get :: "integrand \<Rightarrow> contraction \<Rightarrow> error + pyobj" where
  "integrand_get (NumpyArrayIntegrand obj ps) c = Numpy_get obj c"
| "integrand_get (ScipyArrayIntegrand obj ps) c = Scipy_get obj c"
| "integrand_get (COOTensorIntegrand t) c = COO_get t c"

section \<open>Metadata and persistence\<close>

subsection \<open>The store\<close>

text \<open>
  Modelled from the spec: the groups of the persistence backend, which \<^verbatim>\<open>write\<close> and
  \<^verbatim>\<open>read\<close> receive, are defined outside \<^verbatim>\<open>aroma/affine/integrands/__init__.py\<close> and
  \<^verbatim>\<open>aroma/util/sparse.py\<close>. The specification describes a hierarchical named-group
  key/value store: groups contain named sub-groups and named arrays, plus string and
  number attributes. A stored array keeps its values; an index array of the tensor also
  keeps its integer type.
\<close>

datatype dataset = IndexData dtype "nat list" | IntData "nat list" | RealData "real list"

datatype attr = StrAttr string | TupleAttr "nat list"

datatype group =
  Group (attrs: "(string \<times> attr) list") (datasets: "(string \<times> dataset) list")
        (groups: "(string \<times> group) list")

text \<open>\<^verbatim>\<open>m[k]\<close> on a dictionary, a group or its attributes: \<^verbatim>\<open>KeyError\<close> when \<open>k\<close> is absent.\<close>

definition lookup :: "('k \<times> 'v) list \<Rightarrow> 'k \<Rightarrow> error + 'v" where
  "lookup m k = (case map_of m k of None \<Rightarrow> Inl KeyError | Some v \<Rightarrow> Inr v)"

text \<open>
  \<^verbatim>\<open>group.require_group(name)\<close> returns the sub-group of that name, creating an empty one
  when there is none. A group is a value here, so a sub-group that was changed is put
  back under its name (\<open>put_group\<close>); \<open>set_attr\<close> is \<^verbatim>\<open>group.attrs[name] = a\<close>.
\<close>

definition empty_group :: group where
  "empty_group = Group [] [] []"

definition require_group :: "group \<Rightarrow> string \<Rightarrow> group" where
  "require_group g name = (case map_of (groups g) name of None \<Rightarrow> empty_group | Some sub \<Rightarrow> sub)"

definition put_group :: "group \<Rightarrow> string \<Rightarrow> group \<Rightarrow> group" where
  "put_group g name sub = Group (attrs g) (datasets g) (AList.update name sub (groups g))"

definition set_attr :: "group \<Rightarrow> string \<Rightarrow> attr \<Rightarrow> group" where
  "set_attr g name a = Group (AList.update name a (attrs g)) (datasets g) (groups g)"

text \<open>
  Modelled from the spec: \<^verbatim>\<open>util.to_dataset(value, group, name)\<close> is defined outside
  the two modules; it stores the array \<open>value\<close> in \<open>group\<close> under \<open>name\<close>.
\<close>

definition to_dataset :: "dataset \<Rightarrow> group \<Rightarrow> string \<Rightarrow> group" where
  "to_dataset v g name = Group (attrs g) (AList.update name v (datasets g)) (groups g)"

text \<open>
  \<^verbatim>\<open>group[name][:]\<close> for an integer array and \<^verbatim>\<open>tuple(group.attrs['shape'])\<close>.
\<close>

definition read_ints :: "group \<Rightarrow> string \<Rightarrow> error + nat list" where
  "read_ints g name =
     (case lookup (datasets g) name of
        Inl e \<Rightarrow> Inl e
      | Inr (IndexData _ a) \<Rightarrow> Inr a
      | Inr (IntData a) \<Rightarrow> Inr a
      | Inr (RealData _) \<Rightarrow> Inl TypeError)"

definition read_shape :: "group \<Rightarrow> error + nat list" where
  "read_shape g =
     (case lookup (attrs g) ''shape'' of
        Inl e \<Rightarrow> Inl e
      | Inr (TupleAttr s) \<Rightarrow> Inr s
      | Inr (StrAttr _) \<Rightarrow> Inl TypeError)"

subsection \<open>Writing and reading the assemblers (\<^verbatim>\<open>aroma/util/sparse.py\<close>)\<close>

text \<open>
  \<^verbatim>\<open>CSRAssembler.write\<close> and \<^verbatim>\<open>CSRAssembler.read\<close>, then those of
  \<^verbatim>\<open>VectorAssembler\<close>. \<^verbatim>\<open>read\<close> builds the object with \<^verbatim>\<open>__new__\<close> and sets every
  attribute that \<^verbatim>\<open>__init__\<close> sets. The shape of a \<^verbatim>\<open>CSRAssembler\<close> is a pair and that
  of a \<^verbatim>\<open>VectorAssembler\<close> a single length, so a stored shape of another length is
  rejected.
\<close>

definition CSRAssembler_write :: "CSRAssembler \<Rightarrow> group \<Rightarrow> group" where
  "CSRAssembler_write self g =
     (let g = to_dataset (IntData (csr_row self)) g ''row'';
          g = to_dataset (IntData (csr_col self)) g ''col'';
          g = to_dataset (IntData (csr_order self)) g ''order'';
          g = to_dataset (IntData (csr_inds self)) g ''inds'';
          g = set_attr g ''shape'' (TupleAttr [fst (csr_shape self), snd (csr_shape self)])
      in set_attr g ''type'' (StrAttr ''CSRAssembler''))"

definition CSRAssembler_read :: "group \<Rightarrow> error + CSRAssembler" where
  "CSRAssembler_read g =
     (case read_ints g ''row'' of Inl e \<Rightarrow> Inl e | Inr row \<Rightarrow>
      case read_ints g ''col'' of Inl e \<Rightarrow> Inl e | Inr col \<Rightarrow>
      case read_ints g ''order'' of Inl e \<Rightarrow> Inl e | Inr order \<Rightarrow>
      case read_ints g ''inds'' of Inl e \<Rightarrow> Inl e | Inr inds \<Rightarrow>
      case read_shape g of Inl e \<Rightarrow> Inl e
      | Inr [M, N] \<Rightarrow> Inr \<lparr>csr_row = row, csr_col = col, csr_order = order,
                            csr_inds = inds, csr_shape = (M, N)\<rparr>
      | Inr _ \<Rightarrow> Inl ValueError)"

definition VectorAssembler_write :: "VectorAssembler \<Rightarrow> group \<Rightarrow> group" where
  "VectorAssembler_write self g =
     (let g = to_dataset (IntData (vec_row self)) g ''row'';
          g = to_dataset (IntData (vec_order self)) g ''order'';
          g = to_dataset (IntData (vec_inds self)) g ''inds'';
          g = set_attr g ''shape'' (TupleAttr [vec_shape self])
      in set_attr g ''type'' (StrAttr ''VectorAssembler''))"

definition VectorAssembler_read :: "group \<Rightarrow> error + VectorAssembler" where
  "VectorAssembler_read g =
     (case read_ints g ''row'' of Inl e \<Rightarrow> Inl e | Inr row \<Rightarrow>
      case read_ints g ''order'' of Inl e \<Rightarrow> Inl e | Inr order \<Rightarrow>
      case read_ints g ''inds'' of Inl e \<Rightarrow> Inl e | Inr inds \<Rightarrow>
      case read_shape g of Inl e \<Rightarrow> Inl e
      | Inr [M] \<Rightarrow> Inr \<lparr>vec_row = row, vec_order = order, vec_inds = inds, vec_shape = M\<rparr>
      | Inr _ \<Rightarrow> Inl ValueError)"

text \<open>
  \<^verbatim>\<open>assembler.write(ass_grp)\<close>, and \<^verbatim>\<open>getattr(util, grp.attrs['type']).read(grp)\<close>:
  the class is found by the name stored in the attribute \<^verbatim>\<open>type\<close>.
\<close>

fun assembler_write :: "assembler \<Rightarrow> group \<Rightarrow> group" where
  "assembler_write (CSR a) g = CSRAssembler_write a g"
| "assembler_write (Vec a) g = VectorAssembler_write a g"

definition assembler_read :: "group \<Rightarrow> error + assembler" where
  "assembler_read g =
     (case lookup (attrs g) ''type'' of
        Inl e \<Rightarrow> Inl e
      | Inr (StrAttr ty) \<Rightarrow>
          if ty = ''CSRAssembler'' then map_err CSR (CSRAssembler_read g)
          else if ty = ''VectorAssembler'' then map_err Vec (VectorAssembler_read g)
          else Inl AttributeError
      | Inr (TupleAttr _) \<Rightarrow> Inl TypeError)"

subsection \<open>The names of the assembler groups\<close>

text \<open>
  \<^verbatim>\<open>str(s)\<close> for a natural number, \<^verbatim>\<open>','.join\<close>, \<^verbatim>\<open>key.split(',')\<close> and
  \<^verbatim>\<open>int(i)\<close> on a string of decimal digits, as \<^verbatim>\<open>write\<close> produces them; \<^verbatim>\<open>int\<close>
  raises \<^verbatim>\<open>ValueError\<close> on the empty string and on a character that is no digit.
\<close>

function str_nat :: "nat \<Rightarrow> string" where
  "str_nat n =
     (if n < 10 then [char_of (48 + n)] else str_nat (n div 10) @ [char_of (48 + n mod 10)])"
  by pat_completeness auto
termination by (relation "measure id") auto

declare str_nat.simps [simp del]

fun join :: "string \<Rightarrow> string list \<Rightarrow> string" where
  "join sep [] = []"
| "join sep [s] = s"
| "join sep (s # t # rest) = s @ sep @ join sep (t # rest)"

fun split_comma :: "string \<Rightarrow> string list" where
  "split_comma [] = [[]]"
| "split_comma (c # cs) =
     (if c = CHR '','' then [] # split_comma cs
      else (case split_comma cs of [] \<Rightarrow> [[c]] | w # ws \<Rightarrow> (c # w) # ws))"

definition digit_of :: "char \<Rightarrow> nat option" where
  "digit_of c =
     (let n = of_char c :: nat in if 48 \<le> n \<and> n \<le> 57 then Some (n - 48) else None)"

fun int_of_digits :: "nat \<Rightarrow> string \<Rightarrow> error + nat" where
  "int_of_digits acc [] = Inr acc"
| "int_of_digits acc (c # cs) =
     (case digit_of c of None \<Rightarrow> Inl ValueError
      | Some d \<Rightarrow> int_of_digits (acc * 10 + d) cs)"

definition py_int :: "string \<Rightarrow> error + nat" where
  "py_int s = (if s = [] then Inl ValueError else int_of_digits 0 s)"

subsection \<open>\<^verbatim>\<open>COOTensorIntegrand.write\<close> and \<^verbatim>\<open>COOTensorIntegrand.read\<close>\<close>

text \<open>
  One turn of the loop over \<^verbatim>\<open>self.assemblers.items()\<close> in \<^verbatim>\<open>write\<close>, and \<^verbatim>\<open>write\<close>
  itself, which returns the group \<^verbatim>\<open>sub\<close>. It stores the three index arrays, the data,
  the shape, the type name and the assemblers; it does not call \<^verbatim>\<open>write_props\<close>.
\<close>

definition write_assembler :: "nat list \<times> assembler \<Rightarrow> group \<Rightarrow> group" where
  "write_assembler e assemblers =
     (let name = join '','' (map str_nat (fst e));
          ass_grp = require_group assemblers name
      in put_group assemblers name (assembler_write (snd e) ass_grp))"

definition COOTensorIntegrand_write :: "coo_tensor \<Rightarrow> group \<Rightarrow> string \<Rightarrow> error + group" where
  "COOTensorIntegrand_write self g name =
     (if length (coo_indices self) < 3 then Inl IndexError
      else
        let ty = coo_idx_dtype self;
            sub = require_group g name;
            datagrp = require_group sub ''data'';
            datagrp = to_dataset (IndexData ty (coo_indices self ! 0)) datagrp ''indices-i'';
            datagrp = to_dataset (IndexData ty (coo_indices self ! 1)) datagrp ''indices-j'';
            datagrp = to_dataset (IndexData ty (coo_indices self ! 2)) datagrp ''indices-k'';
            datagrp = to_dataset (RealData (coo_data self)) datagrp ''data'';
            datagrp = set_attr datagrp ''shape'' (TupleAttr (coo_shape self));
            assemblers = fold write_assembler (coo_assemblers self)
                           (require_group datagrp ''assemblers'');
            datagrp = put_group datagrp ''assemblers'' assemblers;
            sub = set_attr (put_group sub ''data'' datagrp) ''type'' (StrAttr ''COOTensorIntegrand'')
        in Inr sub)"

text \<open>
  \<^verbatim>\<open>read\<close> builds the object with \<^verbatim>\<open>__new__\<close> and sets \<^verbatim>\<open>indices\<close>, \<^verbatim>\<open>data\<close>,
  \<^verbatim>\<open>shape\<close> and \<^verbatim>\<open>assemblers\<close>. It sets neither \<^verbatim>\<open>ndim\<close> nor
  \<^verbatim>\<open>_properties\<close>, which only \<^verbatim>\<open>__init__\<close> sets, so the object it returns has no such
  attributes.
\<close>

definition read_index :: "group \<Rightarrow> string \<Rightarrow> error + dtype \<times> nat list" where
  "read_index g name =
     (case lookup (datasets g) name of
        Inl e \<Rightarrow> Inl e
      | Inr (IndexData ty a) \<Rightarrow> Inr (ty, a)
      | Inr _ \<Rightarrow> Inl TypeError)"

definition read_assembler_entry :: "string \<times> group \<Rightarrow> error + nat list \<times> assembler" where
  "read_assembler_entry e =
     (case sequence_err (map py_int (split_comma (fst e))) of
        Inl err \<Rightarrow> Inl err
      | Inr key \<Rightarrow> map_err (\<lambda>a. (key, a)) (assembler_read (snd e)))"

definition COOTensorIntegrand_read :: "group \<Rightarrow> error + coo_tensor" where
  "COOTensorIntegrand_read g =
     (case lookup (groups g) ''data'' of Inl e \<Rightarrow> Inl e | Inr datagrp \<Rightarrow>
      case read_index datagrp ''indices-i'' of Inl e \<Rightarrow> Inl e | Inr (ty, i) \<Rightarrow>
      case read_index datagrp ''indices-j'' of Inl e \<Rightarrow> Inl e | Inr (_, j) \<Rightarrow>
      case read_index datagrp ''indices-k'' of Inl e \<Rightarrow> Inl e | Inr (_, k) \<Rightarrow>
      case lookup (datasets datagrp) ''data'' of Inl e \<Rightarrow> Inl e
      | Inr (RealData dat) \<Rightarrow>
         (case read_shape datagrp of Inl e \<Rightarrow> Inl e | Inr shp \<Rightarrow>
          case lookup (groups datagrp) ''assemblers'' of Inl e \<Rightarrow> Inl e | Inr ag \<Rightarrow>
          case sequence_err (map read_assembler_entry (groups ag)) of Inl e \<Rightarrow> Inl e
          | Inr asss \<Rightarrow>
              Inr \<lparr>coo_shape = shp, coo_ndim = None, coo_data = dat, coo_indices = [i, j, k],
                   coo_idx_dtype = ty, coo_assemblers = asss, coo_properties = None\<rparr>)
      | Inr _ \<Rightarrow> Inl TypeError)"

text \<open>\<open>roundtrip x\<close> is \<^verbatim>\<open>COOTensorIntegrand.read(x.write(group, 'x'))\<close> on an empty group.\<close>

definition roundtrip :: "coo_tensor \<Rightarrow> error + coo_tensor" where
  "roundtrip x =
     (case COOTensorIntegrand_write x empty_group ''x'' of
        Inl e \<Rightarrow> Inl e
      | Inr g \<Rightarrow> COOTensorIntegrand_read g)"

subsection \<open>\<^verbatim>\<open>Integrand.prop\<close>\<close>

text \<open>
  \<^verbatim>\<open>prop(*args, **kwargs)\<close> on a \<^verbatim>\<open>COOTensorIntegrand\<close>. With names it returns their
  values, from \<^verbatim>\<open>self._properties\<close> or else from \<^verbatim>\<open>kwargs\<close> (one value for one name,
  a list otherwise); without names it enters the keys of \<^verbatim>\<open>kwargs\<close> that are not yet
  set and returns the object. Reading \<^verbatim>\<open>self._properties\<close> on an object without that
  attribute raises \<^verbatim>\<open>AttributeError\<close>.
\<close>

datatype prop_result = PValue real | PValues "real list" | PSelf coo_tensor

fun prop_values :: "props \<Rightarrow> string list \<Rightarrow> props \<Rightarrow> error + real list" where
  "prop_values ps [] kwargs = Inr []"
| "prop_values ps (arg # args) kwargs =
     (case (case map_of ps arg of Some v \<Rightarrow> Inr v | None \<Rightarrow> lookup kwargs arg) of
        Inl e \<Rightarrow> Inl e
      | Inr v \<Rightarrow> (case prop_values ps args kwargs of Inl e \<Rightarrow> Inl e | Inr vs \<Rightarrow> Inr (v # vs)))"

definition COO_prop :: "coo_tensor \<Rightarrow> string list \<Rightarrow> props \<Rightarrow> error + prop_result" where
  "COO_prop self args kwargs =
     (if args \<noteq> [] then
        (case coo_properties self of
           None \<Rightarrow> Inl AttributeError
         | Some ps \<Rightarrow>
            (case prop_values ps args kwargs of
               Inl e \<Rightarrow> Inl e
             | Inr values \<Rightarrow> if length args = 1 then Inr (PValue (hd values)) else Inr (PValues values)))
      else if kwargs = [] then Inr (PSelf self)
      else
        (case coo_properties self of
           None \<Rightarrow> Inl AttributeError
         | Some ps \<Rightarrow>
            Inr (PSelf (self\<lparr>coo_properties :=
              Some (fold (\<lambda>(key, val) ps. if map_of ps key = None then ps @ [(key, val)] else ps)
                      kwargs ps)\<rparr>))))"

section \<open>Notions for stating and proving the properties\<close>

text \<open>
  The assembler's pipeline in closed form. \<open>sel a m\<close> is \<^verbatim>\<open>a[m]\<close> for a boolean mask
  of the right length; \<open>segs m d\<close> are the sums of the runs of \<open>d\<close>, a run starting
  wherever \<open>m\<close> is true after the first position; \<open>runs_ok\<close> says that the key does not
  change inside a run; \<open>run_mask\<close> is the mask that \<^verbatim>\<open>CSRAssembler.__init__\<close> computes
  and \<open>lex_order\<close> its sort order; \<open>csr_built\<close> is the assembler that the constructor
  returns when it does not raise.

  \<open>entry_sum row col dat i j\<close> follows the specification's words: the values of all raw
  entries whose coordinates are \<open>(i, j)\<close>, merged by summation.
\<close>

definition sel :: "'a list \<Rightarrow> bool list \<Rightarrow> 'a list" where
  "sel a m = map fst (filter snd (zip a m))"

fun segs :: "bool list \<Rightarrow> real list \<Rightarrow> real list" where
  "segs (b # False # bs) (d # ds) =
     (case segs (False # bs) ds of s # ss \<Rightarrow> (d + s) # ss | [] \<Rightarrow> [d])"
| "segs (b # bs) (d # ds) = d # segs bs ds"
| "segs _ _ = []"

fun runs_ok :: "'k list \<Rightarrow> bool list \<Rightarrow> bool" where
  "runs_ok (k # k' # ks) (b # b' # bs) = ((b' \<or> k' = k) \<and> runs_ok (k' # ks) (b' # bs))"
| "runs_ok _ _ = True"

definition run_mask :: "nat list \<Rightarrow> nat list \<Rightarrow> bool list" where
  "run_mask row1 col1 = True # map2 (\<lambda>a b. a \<or> b) (neq_adj row1) (neq_adj col1)"

definition entry_sum :: "nat list \<Rightarrow> nat list \<Rightarrow> real list \<Rightarrow> nat \<Rightarrow> nat \<Rightarrow> real" where
  "entry_sum row col dat i j =
     sum_list (map snd (filter (\<lambda>e. fst e = (i, j)) (zip (zip row col) dat)))"

definition lex_order :: "nat list \<Rightarrow> nat list \<Rightarrow> nat list" where
  "lex_order row col = sort_key (\<lambda>k. (col ! k, row ! k)) [0..<length row]"

definition csr_built :: "nat \<times> nat \<Rightarrow> nat list \<Rightarrow> nat list \<Rightarrow> CSRAssembler" where
  "csr_built shp row col =
     (let order = lex_order row col;
          row1 = map ((!) row) order; col1 = map ((!) col) order;
          msk = run_mask row1 col1
      in \<lparr>csr_row = sel row1 msk, csr_col = sel col1 msk, csr_order = order,
           csr_inds = nonzero_mask msk, csr_shape = shp\<rparr>)"

text \<open>
  \<open>vec_built\<close> is the assembler that \<^verbatim>\<open>VectorAssembler.__init__\<close> returns when it
  does not raise. \<open>valid_contraction shp c\<close> is the contraction specification of the
  data model: one entry per axis, each \<open>None\<close> or a vector of the length of its axis.
\<close>

definition vec_built :: "nat \<Rightarrow> nat list \<Rightarrow> VectorAssembler" where
  "vec_built shp inds =
     (let order = lexsort1 inds; inds1 = map ((!) inds) order; msk = True # neq_adj inds1
      in \<lparr>vec_row = sel inds1 msk, vec_order = order, vec_inds = nonzero_mask msk,
           vec_shape = shp\<rparr>)"

definition valid_contraction :: "nat list \<Rightarrow> contraction \<Rightarrow> bool" where
  "valid_contraction shp c =
     list_all2 (\<lambda>d e. case e of None \<Rightarrow> True | Some v \<Rightarrow> length v = d) shp c"

text \<open>
  \<open>csr_cols_ok\<close> is the invariant of a scipy matrix that every stored column is inside
  the shape. \<open>bilinear A ca cb\<close> follows the specification's words: the scalar
  \<open>ca\<^sup>T A cb\<close>. \<open>todense\<close> is \<^verbatim>\<open>A.toarray()\<close>, the dense array of the shape of \<open>A\<close>
  with the same entries. \<open>contract_get x c tr\<close> is \<^verbatim>\<open>x.contract(c).get(tr)\<close>, and
  \<open>dense_of\<close> reads a result as a dense array, so that a sparse and a dense result can
  be compared entry by entry.
\<close>

definition csr_cols_ok :: "csr_matrix \<Rightarrow> bool" where
  "csr_cols_ok A =
     list_all (\<lambda>i. list_all (\<lambda>e. fst e < snd (shape A)) (csr_row_entries A i))
       [0..<fst (shape A)]"

definition bilinear :: "csr_matrix \<Rightarrow> real list \<Rightarrow> real list \<Rightarrow> real" where
  "bilinear A ca cb =
     sum_list (map (\<lambda>i. sum_list (map (\<lambda>j. ca ! i * csr_entry A i j * cb ! j)
                                    [0..<snd (shape A)]))
                [0..<fst (shape A)])"




text \<open>
  \<open>max_coordinate\<close> is the largest coordinate of the index arrays.
  \<open>smallest_signed_dtype m\<close> follows the specification's words: the smallest signed
  integer type that can represent \<open>m\<close>.
\<close>

definition max_coordinate :: "nat list list \<Rightarrow> nat" where
  "max_coordinate inds = fold max (concat inds) 0"

definition smallest_signed_dtype :: "nat \<Rightarrow> dtype" where
  "smallest_signed_dtype m =
     (if int m \<le> 127 then int8 else if int m \<le> 32767 then int16
      else if int m \<le> 2147483647 then int32 else int64)"

section \<open>Verification\<close>

subsection \<open>The factory rejects what no class accepts\<close>

lemma get_subclass_None:
  "(\<forall>c \<in> set subs. \<not> accepts c obj) \<Longrightarrow> get_subclass subs obj = None"
  by (simp add: get_subclass_def find_None_iff)

text \<open>
  C7. For a value that is not an Integrand and that no registered class accepts,
  \<^verbatim>\<open>Integrand.make\<close> fails and \<^verbatim>\<open>acceptable\<close> returns \<^verbatim>\<open>False\<close>. The failure is the
  \<^verbatim>\<open>NotImplementedError\<close> that the source raises, which is what the specification calls
  \<open>UnsupportedRepresentation\<close>. The registry is any list of classes.
\<close>

theorem make_unsupported:
  assumes "\<not> isinstance_Integrand obj" and "\<forall>c \<in> set subs. \<not> accepts c obj"
  shows "make subs obj = Inl NotImplementedError \<and> acceptable subs obj = False"
proof -
  have g: "get_subclass subs obj = None" using assms(2) by (rule get_subclass_None)
  have a: "\<not> acceptable subs obj" using assms(1) g by (simp add: acceptable_def)
  have "make subs obj = Inl NotImplementedError"
    using assms(1) a by (cases obj) (simp_all add: make_def)
  with a show ?thesis by simp
qed

theorem make_unsupported_witness:
  "\<not> isinstance_Integrand (OtherObj ''str'')
   \<and> list_all (\<lambda>c. \<not> accepts c (OtherObj ''str'')) subclasses
   \<and> make subclasses (OtherObj ''str'') = Inl NotImplementedError
   \<and> acceptable subclasses (OtherObj ''str'') = False"
proof -
  have h1: "\<not> isinstance_Integrand (OtherObj ''str'')" by simp
  have h2: "\<forall>c \<in> set subclasses. \<not> accepts c (OtherObj ''str'')"
    by (simp add: subclasses_def)
  show ?thesis using h1 h2 make_unsupported [OF h1 h2] by (simp add: list_all_iff)
qed

subsection \<open>The end-to-end example\<close>

text \<open>
  C1. The tensor of shape \<open>(2, 2, 2)\<close> built from \<open>i = j = k = [0, 0, 1]\<close> and the values
  \<open>[1, 2, 3]\<close>: contracting the axes 1 and 2 with \<open>[1, 1]\<close> and \<open>[1, 1]\<close> yields the vector
  \<open>[3, 3]\<close>; contracting the axis 2 alone with \<open>[1, 0]\<close> yields the \<open>2 \<times> 2\<close> sparse matrix
  whose entry \<open>(0, 0)\<close> is 3 and whose other entries, \<open>(1, 1)\<close> among them, are 0. Both
  \<^verbatim>\<open>contract\<close> and \<^verbatim>\<open>get\<close> are evaluated.
\<close>

theorem end_to_end_example:
  "\<exists>t A ps.
     COOTensorIntegrand_init [2, 2, 2] [[0, 0, 1], [0, 0, 1], [0, 0, 1]] [1, 2, 3] = Inr t
     \<and> COO_contract t [None, Some [1, 1], Some [1, 1]] = Inr (NumpyArrayIntegrand (vector [3, 3]) [])
     \<and> COO_get t [None, Some [1, 1], Some [1, 1]] = Inr (Ndarray (vector [3, 3]))
     \<and> COO_contract t [None, None, Some [1, 0]] = Inr (ScipyArrayIntegrand A ps)
     \<and> COO_get t [None, None, Some [1, 0]] = Inr (Spmatrix A)
     \<and> shape A = (2, 2)
     \<and> csr_toarray A = [[3, 0], [0, 0]]"
proof -
  let ?a = "\<lparr>csr_row = [0, 1], csr_col = [0, 1], csr_order = [0, 1, 2],
             csr_inds = [0, 2], csr_shape = (2, 2)\<rparr>"
  let ?t = "\<lparr>coo_shape = [2, 2, 2], coo_ndim = Some 3, coo_data = [1, 2, 3],
             coo_indices = [[0, 0, 1], [0, 0, 1], [0, 0, 1]], coo_idx_dtype = int32,
             coo_assemblers =
               [([1], CSR ?a), ([2], CSR ?a),
                ([1, 2], Vec \<lparr>vec_row = [0, 1], vec_order = [0, 1, 2], vec_inds = [0, 2],
                              vec_shape = 2\<rparr>)],
             coo_properties = Some []\<rparr>"
  let ?A = "\<lparr>data = [3, 0], indices = [0, 1], indptr = [0, 1, 2], shape = (2, 2)\<rparr>"
  have 1: "COOTensorIntegrand_init [2, 2, 2] [[0, 0, 1], [0, 0, 1], [0, 0, 1]] [1, 2, 3] = Inr ?t"
    by code_simp
  have 2: "COO_contract ?t [None, Some [1, 1], Some [1, 1]]
             = Inr (NumpyArrayIntegrand (vector [3, 3]) [])"
    by code_simp
  have 3: "COO_get ?t [None, Some [1, 1], Some [1, 1]] = Inr (Ndarray (vector [3, 3]))"
    by code_simp
  have 4: "COO_contract ?t [None, None, Some [1, 0]] = Inr (ScipyArrayIntegrand ?A [])"
    by code_simp
  have 5: "COO_get ?t [None, None, Some [1, 0]] = Inr (Spmatrix ?A)"
    by code_simp
  have 6: "csr_toarray ?A = [[3, 0], [0, 0]]"
    by code_simp
  have 7: "shape ?A = (2, 2)" by simp
  from 1 2 3 4 5 6 7 show ?thesis by blast
qed

subsection \<open>Contraction with no vector\<close>

lemma contract_loop_all_None:
  "all_None c \<Longrightarrow> contract_loop nd i c obj axes = Inr (obj, axes)"
  by (induction c arbitrary: i) (auto simp: all_None_def)

lemma make_Integrand: "make subs (IntegrandObj x) = Inr x"
  by (simp add: make_def)

text \<open>
  C9. When every entry of the contraction is \<open>None\<close>, \<^verbatim>\<open>contract\<close> of a
  \<^verbatim>\<open>COOTensorIntegrand\<close> returns the receiver itself, and \<^verbatim>\<open>contract\<close> of a dense
  Integrand returns a dense Integrand that wraps an array equal to the original one
  (\<^verbatim>\<open>get\<close> returns that array). This holds at every rank, rank 3 included.
\<close>

theorem contract_identity:
  assumes "all_None c"
  shows "integrand_contract (COOTensorIntegrand t) c = Inr (COOTensorIntegrand t)
     \<and> integrand_contract (NumpyArrayIntegrand obj ps) c = Inr (NumpyArrayIntegrand obj [])
     \<and> integrand_get (NumpyArrayIntegrand obj ps) c = Inr (Ndarray obj)"
  using assms
  by (simp add: COO_contract_def COO_contract_raw_def make_Integrand Numpy_contract_def
      Numpy_get_def Numpy_contract_raw_def contract_loop_all_None map_err_def)

theorem contract_identity_witness:
  "all_None [None, None, None]
   \<and> integrand_contract
        (COOTensorIntegrand
          \<lparr>coo_shape = [2, 2, 2], coo_ndim = Some 3, coo_data = [5],
           coo_indices = [[1], [0], [1]], coo_idx_dtype = int32, coo_assemblers = [],
           coo_properties = Some []\<rparr>) [None, None, None]
      = Inr (COOTensorIntegrand
          \<lparr>coo_shape = [2, 2, 2], coo_ndim = Some 3, coo_data = [5],
           coo_indices = [[1], [0], [1]], coo_idx_dtype = int32, coo_assemblers = [],
           coo_properties = Some []\<rparr>)
   \<and> integrand_contract
        (NumpyArrayIntegrand (tensor3 [[[1, 2], [3, 4]], [[5, 6], [7, 8]]]) [])
        [None, None, None]
      = Inr (NumpyArrayIntegrand (tensor3 [[[1, 2], [3, 4]], [[5, 6], [7, 8]]]) [])
   \<and> integrand_get
        (NumpyArrayIntegrand (tensor3 [[[1, 2], [3, 4]], [[5, 6], [7, 8]]]) [])
        [None, None, None]
      = Inr (Ndarray (tensor3 [[[1, 2], [3, 4]], [[5, 6], [7, 8]]]))"
proof -
  have h: "all_None [None, None, None]" by (simp add: all_None_def)
  show ?thesis using h contract_identity [OF h] by simp
qed

subsection \<open>The sparse-matrix wrapper with two vectors\<close>

text \<open>
  C6. \<^verbatim>\<open>ScipyArrayIntegrand.contract\<close> with a vector for each of the two axes fails:
  \<^verbatim>\<open>assert ca is None or cb is None\<close> raises \<^verbatim>\<open>AssertionError\<close>, the failure that
  the specification calls \<open>InvalidContraction\<close>.
\<close>

theorem Scipy_contract_two_vectors:
  "integrand_contract (ScipyArrayIntegrand obj ps) [Some ca, Some cb] = Inl AssertionError"
  by (simp add: Scipy_contract_def)

subsection \<open>The matrix that the sparse assembler returns\<close>

text \<open>
  When the constructor of \<^verbatim>\<open>CSRAssembler\<close> has succeeded on \<open>row\<close> and \<open>col\<close>, a call on a
  data vector of their length succeeds, and every entry \<open>(i, j)\<close> of the matrix it returns
  is the sum of the values of the raw entries with the coordinates \<open>(i, j)\<close>, the sum being
  that of real numbers.
\<close>

lemma neq_adj_simps [simp]:
  "neq_adj [] = []" "neq_adj [x] = []" "neq_adj (x # y # r) = (y \<noteq> x) # neq_adj (y # r)"
  by (simp_all add: neq_adj_def)

lemma length_neq_adj [simp]: "length (neq_adj a) = length a - 1"
  by (simp add: neq_adj_def)

lemma nonzero_mask_Nil [simp]: "nonzero_mask [] = []"
  by (simp add: nonzero_mask_def)

lemma nonzero_mask_Cons:
  "nonzero_mask (b # bs) = (if b then [0] else []) @ map Suc (nonzero_mask bs)"
proof -
  have "[0..<Suc (length bs)] = 0 # map Suc [0..<length bs]"
    by (simp add: upt_conv_Cons map_Suc_upt del: upt_Suc)
  then show ?thesis
    by (simp add: nonzero_mask_def filter_map comp_def del: upt_Suc)
qed

lemma reduceat_shift: "reduceat_segments (d # D) (map Suc J) = reduceat_segments D J"
  by (induction D J rule: reduceat_segments.induct) simp_all

lemma reduceat_prepend:
  "\<forall>j\<in>set J. 0 < j \<Longrightarrow>
   reduceat_segments (d # D) (0 # map Suc J)
     = (case reduceat_segments D (0 # J) of s # ss \<Rightarrow> (d + s) # ss | [] \<Rightarrow> [d])"
proof (cases J)
  case Nil then show ?thesis by simp
next
  case (Cons j J')
  assume "\<forall>j\<in>set J. 0 < j"
  with Cons have "0 < j" by simp
  then show ?thesis using Cons reduceat_shift[of d D "j # J'"] by simp
qed

lemma segs_nonempty: "length ds = length bs \<Longrightarrow> segs (b # bs) (d # ds) \<noteq> []"
  by (induction "b # bs" "d # ds" arbitrary: b bs d ds rule: segs.induct)
     (auto split: list.splits)

lemma reduceat_segs:
  "length ds = length bs \<Longrightarrow>
   reduceat_segments (d # ds) (0 # map Suc (nonzero_mask bs)) = segs (b # bs) (d # ds)"
proof (induction bs arbitrary: b d ds)
  case Nil then show ?case by simp
next
  case (Cons b' bs')
  then obtain d' ds' where ds: "ds = d' # ds'" and len: "length ds' = length bs'"
    by (cases ds) auto
  have IH: "reduceat_segments (d' # ds') (0 # map Suc (nonzero_mask bs')) = segs (b' # bs') (d' # ds')"
    using Cons.IH[OF len] .
  show ?case
  proof (cases b')
    case True
    have "reduceat_segments (d # d' # ds') (0 # map Suc (nonzero_mask (True # bs')))
          = d # reduceat_segments (d # d' # ds') (map Suc (0 # map Suc (nonzero_mask bs')))"
      by (simp add: nonzero_mask_Cons)
    also have "\<dots> = d # reduceat_segments (d' # ds') (0 # map Suc (nonzero_mask bs'))"
      by (simp only: reduceat_shift)
    finally show ?thesis using True IH ds by simp
  next
    case False
    have pos: "\<forall>j\<in>set (map Suc (nonzero_mask bs')). 0 < j" by simp
    have "reduceat_segments (d # d' # ds') (0 # map Suc (nonzero_mask (False # bs')))
          = reduceat_segments (d # d' # ds') (0 # map Suc (map Suc (nonzero_mask bs')))"
      by (simp add: nonzero_mask_Cons)
    also have "\<dots> = (case reduceat_segments (d' # ds') (0 # map Suc (nonzero_mask bs')) of
                        s # ss \<Rightarrow> (d + s) # ss | [] \<Rightarrow> [d])"
      using reduceat_prepend[OF pos] .
    finally show ?thesis using False IH ds by simp
  qed
qed

lemma sel_Nil [simp]: "sel [] m = []" "sel a [] = []"
  by (simp_all add: sel_def)

lemma sel_Cons [simp]: "sel (k # ks) (b # bs) = (if b then k # sel ks bs else sel ks bs)"
  by (simp add: sel_def)

lemma sel_map: "sel (map f xs) m = map f (sel xs m)"
  by (induction xs arbitrary: m) (case_tac m; simp)+

lemma segs_sum:
  "length ks = length bs \<Longrightarrow> length ds = length bs \<Longrightarrow> runs_ok (k # ks) (b # bs) \<Longrightarrow>
   sum_list (map snd (filter (\<lambda>e. P (fst e)) (zip (k # sel ks bs) (segs (b # bs) (d # ds)))))
   = sum_list (map snd (filter (\<lambda>e. P (fst e)) (zip (k # ks) (d # ds))))"
proof (induction bs arbitrary: k ks b d ds)
  case Nil then show ?case by simp
next
  case (Cons b' bs')
  then obtain d' ds' where ds: "ds = d' # ds'" and lend: "length ds' = length bs'"
    by (cases ds) auto
  from Cons obtain k' ks' where ks: "ks = k' # ks'" and lenk: "length ks' = length bs'"
    by (cases ks) auto
  from Cons.prems(3) ks have ok: "runs_ok (k' # ks') (b' # bs')" and eq: "b' \<or> k' = k"
    by simp_all
  note IH = Cons.IH[OF lenk lend ok, of d']
  show ?case
  proof (cases b')
    case True
    then show ?thesis using IH ds ks by simp
  next
    case False
    with eq have kk: "k' = k" by simp
    obtain s ss where seg: "segs (False # bs') (d' # ds') = s # ss"
      using segs_nonempty[OF lend, of False d'] by (cases "segs (False # bs') (d' # ds')") auto
    show ?thesis using IH False ds ks kk seg by (cases "P k") (simp_all add: algebra_simps)
  qed
qed

lemma runs_ok_mask_aux:
  "length row = length col \<Longrightarrow>
   runs_ok (zip (r # row) (c # col)) (b # map2 (\<lambda>a b. a \<or> b) (neq_adj (r # row)) (neq_adj (c # col)))"
  by (induction row col arbitrary: r c b rule: list_induct2) auto

lemma runs_ok_run_mask:
  "length row = length col \<Longrightarrow> runs_ok (zip row col) (run_mask row col)"
proof (cases row)
  case Nil then show ?thesis by simp
next
  case (Cons r row')
  assume len: "length row = length col"
  with Cons obtain c col' where col: "col = c # col'" and "length row' = length col'"
    by (cases col) auto
  then show ?thesis
    using runs_ok_mask_aux[of row' col' r c True] Cons by (simp add: run_mask_def)
qed

lemma length_run_mask: "length row = length col \<Longrightarrow> row \<noteq> [] \<Longrightarrow> length (run_mask row col) = length row"
  by (cases row) (simp_all add: run_mask_def)

lemma concat_upt_split:
  assumes "i < M"
  shows "concat (map g [0..<M]) = concat (map g [0..<i]) @ g i @ concat (map g [Suc i..<M])"
proof -
  have "[0..<i + (M - i)] = [0..<i] @ [i..<i + (M - i)]"
    by (rule upt_add_eq_append) simp
  moreover have "[i..<M] = i # [Suc i..<M]"
    using assms by (rule upt_conv_Cons)
  ultimately have "[0..<M] = [0..<i] @ i # [Suc i..<M]"
    using assms by simp
  then show ?thesis by simp
qed

lemma csr_row_entries_coo_tocsr:
  assumes "i < M" and "coo_tocsr M N nnz Ai Aj Ax = (Bp, Bj, Bx)"
  shows "csr_row_entries \<lparr>data = Bx, indices = Bj, indptr = Bp, shape = shp\<rparr> i
         = row_group (coo_triples nnz Ai Aj Ax) i"
proof -
  define ts where "ts = coo_triples nnz Ai Aj Ax"
  define g where "g = row_group ts"
  define P where "P = concat (map g [0..<i])"
  define R where "R = concat (map g [Suc i..<M])"
  have Bp: "Bp = map (\<lambda>i. length (concat (map g [0..<i]))) [0..<Suc M]"
    and Bj: "Bj = concat (map (\<lambda>i. map fst (g i)) [0..<M])"
    and Bx: "Bx = concat (map (\<lambda>i. map snd (g i)) [0..<M])"
    using assms(2) by (simp_all add: coo_tocsr_def Let_def ts_def g_def)
  have p: "Bp ! i = length P"
    using assms(1) unfolding Bp P_def by (simp del: upt_Suc)
  have "Bp ! Suc i = length (concat (map g [0..<Suc i]))"
    using assms(1) unfolding Bp by (simp del: upt_Suc add: nth_map_upt)
  then have q: "Bp ! Suc i = length P + length (g i)"
    by (simp add: P_def)
  have C: "concat (map g [0..<M]) = P @ g i @ R"
    unfolding P_def R_def using concat_upt_split[OF assms(1)] .
  have Bj': "Bj = map fst (P @ g i @ R)"
    unfolding Bj C[symmetric] by (simp add: map_concat comp_def)
  have Bx': "Bx = map snd (P @ g i @ R)"
    unfolding Bx C[symmetric] by (simp add: map_concat comp_def)
  have "csr_row_entries \<lparr>data = Bx, indices = Bj, indptr = Bp, shape = shp\<rparr> i
        = zip (map fst (g i)) (map snd (g i))"
    by (simp add: csr_row_entries_def Let_def p q Bj' Bx')
  then show ?thesis by (simp add: zip_map_fst_snd g_def ts_def)
qed

lemma zip_reassoc_sum:
  "sum_list (map (\<lambda>t. snd (snd t)) (filter (\<lambda>t. fst t = i \<and> fst (snd t) = j) (zip r (zip c d))))
   = sum_list (map snd (filter (\<lambda>e. fst e = (i, j)) (zip (zip r c) d)))"
proof (induction r arbitrary: c d)
  case Nil then show ?case by simp
next
  case (Cons x r)
  then show ?case by (cases c; cases d) auto
qed

lemma csr_entry_row_group:
  assumes "csr_row_entries A i = row_group ts i"
  shows "csr_entry A i j
         = sum_list (map (\<lambda>t. snd (snd t)) (filter (\<lambda>t. fst t = i \<and> fst (snd t) = j) ts))"
proof -
  have "filter (\<lambda>e. fst e = j) (map snd (filter (\<lambda>t. fst t = i) ts))
        = map snd (filter (\<lambda>t. fst t = i \<and> fst (snd t) = j) ts)"
    by (induction ts) auto
  then show ?thesis by (simp add: csr_entry_def assms row_group_def comp_def)
qed

lemma sel_zip: "length a = length b \<Longrightarrow> sel (zip a b) m = zip (sel a m) (sel b m)"
proof (induction a b arbitrary: m rule: list_induct2)
  case Nil then show ?case by simp
next
  case (Cons x xs y ys) then show ?case by (cases m) auto
qed

lemma sum_zip_map:
  "sum_list (map snd (filter (\<lambda>e. P (fst e)) (zip (map g xs) (map h xs))))
   = sum_list (map (\<lambda>x. if P (g x) then h x else 0) xs)"
  by (induction xs) auto

lemma sum_list_perm_upt:
  fixes f :: "nat \<Rightarrow> real"
  assumes "distinct xs" and "set xs = {0..<n}"
  shows "sum_list (map f xs) = sum_list (map f [0..<n])"
proof -
  have "sum_list (map f xs) = sum f (set xs)"
    using assms(1) by (simp add: sum_list_distinct_conv_sum_set)
  also have "\<dots> = sum_list (map f [0..<n])"
    using assms(2) by (simp add: sum_list_distinct_conv_sum_set)
  finally show ?thesis .
qed

lemma set_lex_order [simp]: "set (lex_order row col) = {0..<length row}"
  by (simp add: lex_order_def)

lemma distinct_lex_order [simp]: "distinct (lex_order row col)"
  by (simp add: lex_order_def)

lemma length_lex_order [simp]: "length (lex_order row col) = length row"
  by (simp add: lex_order_def)

lemma fold_max_Max: "fold max xs (x::nat) = Max (set (x # xs))"
  by (rule Max.set_eq_fold[symmetric])

lemma np_max_Inr_iff: "np_max a = Inr m \<longleftrightarrow> a \<noteq> [] \<and> m = Max (set a)"
  by (cases a) (auto simp: np_max_def fold_max_Max simp del: set_simps)

lemma np_max_Inl_iff: "np_max a = Inl e \<longleftrightarrow> a = [] \<and> e = ValueError"
  by (cases a) (auto simp: np_max_def)

lemma fancy_Inr: "set idx \<subseteq> {0..<length a} \<Longrightarrow> fancy a idx = Inr (map ((!) a) idx)"
  by (auto simp: fancy_def list_all_iff)

lemma bool_index_Inr: "length a = length m \<Longrightarrow> bool_index a m = Inr (sel a m)"
  by (simp add: bool_index_def sel_def)

lemma CSRAssembler_init_ok:
  assumes "row \<noteq> []" "length row = length col"
    "\<forall>x\<in>set row. x < fst shp" "\<forall>x\<in>set col. x < snd shp"
  shows "CSRAssembler_init shp row col = Inr (csr_built shp row col)"
proof -
  let ?order = "lex_order row col"
  let ?row1 = "map ((!) row) ?order" and ?col1 = "map ((!) col) ?order"
  have col: "col \<noteq> []" using assms(1,2) by auto
  obtain mr where mr: "np_max row = Inr mr" "mr < fst shp"
    using assms(1,3) by (auto simp: np_max_Inr_iff)
  obtain mc where mc: "np_max col = Inr mc" "mc < snd shp"
    using col assms(4) by (auto simp: np_max_Inr_iff)
  have lx: "lexsort row col = Inr ?order"
    using assms(2) by (simp add: lexsort_def lex_order_def)
  have f1: "fancy row ?order = Inr ?row1" by (rule fancy_Inr) simp
  have f2: "fancy col ?order = Inr ?col1" by (rule fancy_Inr) (simp add: assms(2))
  have "length ?row1 \<noteq> 0" using assms(1) by simp
  then have ne: "?row1 \<noteq> []" by fastforce
  have len: "length (run_mask ?row1 ?col1) = length ?row1"
    by (rule length_run_mask[OF _ ne]) simp
  have b1: "bool_index ?row1 (run_mask ?row1 ?col1) = Inr (sel ?row1 (run_mask ?row1 ?col1))"
    by (rule bool_index_Inr) (simp only: len)
  have b2: "bool_index ?col1 (run_mask ?row1 ?col1) = Inr (sel ?col1 (run_mask ?row1 ?col1))"
    by (rule bool_index_Inr) (simp add: len[simplified])
  show ?thesis
    unfolding CSRAssembler_init_def csr_built_def
    using mr mc lx f1 f2 b1 b2
    by (simp add: Let_def run_mask_def)
qed

lemma CSRAssembler_init_Inr:
  assumes "CSRAssembler_init shp row col = Inr a"
  shows "row \<noteq> [] \<and> length row = length col \<and> (\<forall>x\<in>set row. x < fst shp)
         \<and> (\<forall>x\<in>set col. x < snd shp) \<and> a = csr_built shp row col"
proof -
  from assms obtain mr where mr: "np_max row = Inr mr" "mr < fst shp"
    by (auto simp: CSRAssembler_init_def split: sum.splits if_splits)
  from assms mr obtain mc where mc: "np_max col = Inr mc" "mc < snd shp"
    by (auto simp: CSRAssembler_init_def split: sum.splits if_splits)
  from assms mr mc have len: "length row = length col"
    by (auto simp: CSRAssembler_init_def lexsort_def split: sum.splits if_splits)
  have r: "row \<noteq> []" "\<forall>x\<in>set row. x < fst shp"
    using mr by (auto simp: np_max_Inr_iff intro: le_less_trans)
  have c: "\<forall>x\<in>set col. x < snd shp"
    using mc by (auto simp: np_max_Inr_iff intro: le_less_trans)
  from CSRAssembler_init_ok[OF r(1) len r(2) c] assms show ?thesis
    using r c len by simp
qed

lemma zip_map_same: "zip (map f xs) (map g xs) = map (\<lambda>x. (f x, g x)) xs"
  by (induction xs) simp_all

lemma pipeline_sum:
  assumes len: "length keys = length d1" and msk: "length (True # bs) = length keys"
    and ok: "runs_ok keys (True # bs)"
  shows "sum_list (map snd (filter (\<lambda>e. P (fst e))
           (zip (sel keys (True # bs)) (reduceat_segments d1 (nonzero_mask (True # bs))))))
         = sum_list (map snd (filter (\<lambda>e. P (fst e)) (zip keys d1)))"
proof -
  from msk obtain k ks where keys: "keys = k # ks" and lk: "length ks = length bs"
    by (cases keys) auto
  from len keys obtain d ds where d1: "d1 = d # ds" and ld: "length ds = length bs"
    using lk by (cases d1) auto
  have "reduceat_segments d1 (nonzero_mask (True # bs)) = segs (True # bs) (d # ds)"
    using reduceat_segs[OF ld, of d True] by (simp add: nonzero_mask_Cons d1)
  moreover have "sel keys (True # bs) = k # sel ks bs" by (simp add: keys)
  ultimately show ?thesis
    using segs_sum[OF lk ld, of k True P d] ok keys d1 by simp
qed

lemma set_nonzero_mask: "set (nonzero_mask m) \<subseteq> {0..<length m}"
  by (auto simp: nonzero_mask_def)

lemma reduceat_Inr:
  "set inds \<subseteq> {0..<length a} \<Longrightarrow> reduceat a inds = Inr (reduceat_segments a inds)"
  by (auto simp: reduceat_def list_all_iff)

lemma length_sel_le: "length (sel a m) \<le> length a"
  by (simp add: sel_def) (metis length_filter_le length_zip min.cobounded1 order_trans)

lemma entry_sum_upt:
  assumes "length row = length col" "length dat = length row"
  shows "entry_sum row col dat i j
         = sum_list (map (\<lambda>k. if (row ! k, col ! k) = (i, j) then dat ! k else 0) [0..<length row])"
proof -
  let ?n = "length row"
  have "zip row col = map (\<lambda>k. (row ! k, col ! k)) [0..<?n]"
    using assms(1) by (intro nth_equalityI) simp_all
  moreover have "dat = map ((!) dat) [0..<?n]"
    using assms(2) by (intro nth_equalityI) simp_all
  ultimately have "zip (zip row col) dat
      = zip (map (\<lambda>k. (row ! k, col ! k)) [0..<?n]) (map ((!) dat) [0..<?n])"
    by simp
  then show ?thesis
    unfolding entry_sum_def
    using sum_zip_map[where P = "\<lambda>key. key = (i, j)" and h = "(!) dat" and xs = "[0..<?n]"
        and g = "\<lambda>k. (row ! k, col ! k)"]
    by simp
qed

lemma CSRAssembler_call_built:
  assumes ne: "row \<noteq> []" and len: "length row = length col" and ld: "length dat = length row"
  shows "\<exists>A. CSRAssembler_call (csr_built shp row col) dat = Inr A \<and> shape A = shp
           \<and> (\<forall>i j. i < fst shp \<longrightarrow> csr_entry A i j = entry_sum row col dat i j)"
proof -
  define order where "order = lex_order row col"
  define row1 where "row1 = map ((!) row) order"
  define col1 where "col1 = map ((!) col) order"
  define msk where "msk = run_mask row1 col1"
  define d1 where "d1 = map ((!) dat) order"
  define d2 where "d2 = reduceat_segments d1 (nonzero_mask msk)"
  define row2 where "row2 = sel row1 msk"
  define col2 where "col2 = sel col1 msk"
  obtain M N where shp: "shp = (M, N)" by (cases shp)
  obtain Bp Bj Bx where B: "coo_tocsr M N (length row2) row2 col2 d2 = (Bp, Bj, Bx)"
    by (cases "coo_tocsr M N (length row2) row2 col2 d2")
  define A where "A = \<lparr>data = Bx, indices = Bj, indptr = Bp, shape = shp\<rparr>"
  have a: "csr_built shp row col = \<lparr>csr_row = row2, csr_col = col2, csr_order = order,
           csr_inds = nonzero_mask msk, csr_shape = shp\<rparr>"
    by (simp add: csr_built_def Let_def order_def row1_def col1_def msk_def row2_def col2_def)
  have lo: "length order = length row" by (simp add: order_def)
  have "length row1 \<noteq> 0" using ne by (simp add: row1_def lo)
  then have ne1: "row1 \<noteq> []" by fastforce
  have l1: "length row1 = length col1" by (simp add: row1_def col1_def)
  have lm: "length msk = length row1" unfolding msk_def by (rule length_run_mask[OF l1 ne1])
  have f: "fancy dat order = Inr d1"
    unfolding d1_def by (rule fancy_Inr) (simp add: order_def ld)
  have r: "reduceat d1 (nonzero_mask msk) = Inr d2"
    unfolding d2_def
    by (rule reduceat_Inr) (use set_nonzero_mask[of msk] in \<open>simp add: lm d1_def row1_def\<close>)
  have call: "CSRAssembler_call (csr_built shp row col) dat = Inr A"
    unfolding CSRAssembler_call_def a A_def using B by (simp add: f r shp)
  have ent: "csr_entry A i j = entry_sum row col dat i j" if i: "i < fst shp" for i j
  proof -
    have iM: "i < M" using i shp by simp
    obtain bs where m: "msk = True # bs" by (simp add: msk_def run_mask_def)
    have ts: "coo_triples (length row2) row2 col2 d2 = zip row2 (zip col2 d2)"
      by (simp add: coo_triples_def)
    have "csr_row_entries A i = row_group (zip row2 (zip col2 d2)) i"
      unfolding A_def using csr_row_entries_coo_tocsr[OF iM B] ts by simp
    then have "csr_entry A i j = sum_list (map (\<lambda>t. snd (snd t))
        (filter (\<lambda>t. fst t = i \<and> fst (snd t) = j) (zip row2 (zip col2 d2))))"
      by (rule csr_entry_row_group)
    also have "\<dots> = sum_list (map snd (filter (\<lambda>e. fst e = (i, j)) (zip (zip row2 col2) d2)))"
      by (rule zip_reassoc_sum)
    also have "zip row2 col2 = sel (zip row1 col1) msk"
      unfolding row2_def col2_def by (rule sel_zip[OF l1, symmetric])
    also have "sum_list (map snd (filter (\<lambda>e. fst e = (i, j))
                 (zip (sel (zip row1 col1) msk) d2)))
             = sum_list (map snd (filter (\<lambda>e. fst e = (i, j)) (zip (zip row1 col1) d1)))"
      unfolding d2_def m
    proof (rule pipeline_sum)
      show "length (zip row1 col1) = length d1" by (simp add: l1 d1_def col1_def)
      show "length (True # bs) = length (zip row1 col1)" using lm l1 m by simp
      show "runs_ok (zip row1 col1) (True # bs)"
        using runs_ok_run_mask[OF l1] m by (simp add: msk_def)
    qed
    also have "zip (zip row1 col1) d1
               = zip (map (\<lambda>k. (row ! k, col ! k)) order) (map ((!) dat) order)"
      by (simp add: row1_def col1_def d1_def zip_map_same)
    also have "sum_list (map snd (filter (\<lambda>e. fst e = (i, j)) \<dots>))
               = sum_list (map (\<lambda>k. if (row ! k, col ! k) = (i, j) then dat ! k else 0) order)"
      by (rule sum_zip_map)
    also have "\<dots> = sum_list (map (\<lambda>k. if (row ! k, col ! k) = (i, j) then dat ! k else 0)
                        [0..<length row])"
      by (rule sum_list_perm_upt) (simp_all add: order_def)
    also have "\<dots> = entry_sum row col dat i j"
      by (rule entry_sum_upt[OF len ld, symmetric])
    finally show ?thesis .
  qed
  have "shape A = shp" by (simp add: A_def)
  with call ent show ?thesis by blast
qed

subsection \<open>The axis patterns of the unassembled tensor\<close>

lemma set_lexsort1 [simp]: "set (lexsort1 inds) = {0..<length inds}"
  by (simp add: lexsort1_def)

lemma length_lexsort1 [simp]: "length (lexsort1 inds) = length inds"
  by (simp add: lexsort1_def)

lemma VectorAssembler_init_ok:
  assumes "inds \<noteq> []" "\<forall>x\<in>set inds. x < shp"
  shows "VectorAssembler_init shp inds = Inr (vec_built shp inds)"
proof -
  let ?order = "lexsort1 inds"
  let ?inds1 = "map ((!) inds) ?order"
  obtain m where m: "np_max inds = Inr m" "m < shp"
    using assms by (auto simp: np_max_Inr_iff)
  have f: "fancy inds ?order = Inr ?inds1" by (rule fancy_Inr) simp
  have "length ?inds1 \<noteq> 0" using assms(1) by simp
  then have "length (True # neq_adj ?inds1) = length ?inds1" by simp
  then have b: "bool_index ?inds1 (True # neq_adj ?inds1) = Inr (sel ?inds1 (True # neq_adj ?inds1))"
    by (intro bool_index_Inr) simp
  show ?thesis
    unfolding VectorAssembler_init_def vec_built_def using m f b by (simp add: Let_def)
qed

lemma VectorAssembler_init_Inr:
  assumes "VectorAssembler_init shp inds = Inr a"
  shows "inds \<noteq> [] \<and> (\<forall>x\<in>set inds. x < shp) \<and> a = vec_built shp inds"
proof -
  from assms obtain m where m: "np_max inds = Inr m" "m < shp"
    by (auto simp: VectorAssembler_init_def split: sum.splits if_splits)
  then have r: "inds \<noteq> []" "\<forall>x\<in>set inds. x < shp"
    by (auto simp: np_max_Inr_iff intro: le_less_trans)
  from VectorAssembler_init_ok[OF r] assms r show ?thesis by simp
qed

lemma length_reduceat_segments [simp]: "length (reduceat_segments a inds) = length inds"
  by (induction a inds rule: reduceat_segments.induct) simp_all

lemma length_nonzero_mask: "length (nonzero_mask m) = length (filter id m)"
  by (induction m) (simp_all add: nonzero_mask_Cons)

lemma length_sel: "length a = length m \<Longrightarrow> length (sel a m) = length (filter id m)"
  by (induction a m rule: list_induct2) simp_all

lemma set_sel: "set (sel a m) \<subseteq> set a"
  by (auto simp: sel_def dest: set_zip_leftD)

lemma VectorAssembler_call_built:
  assumes ne: "inds \<noteq> []" and r: "\<forall>x\<in>set inds. x < shp" and ld: "length dat = length inds"
  shows "\<exists>v. VectorAssembler_call (vec_built shp inds) dat = Inr v"
proof -
  define order where "order = lexsort1 inds"
  define inds1 where "inds1 = map ((!) inds) order"
  define msk where "msk = True # neq_adj inds1"
  define d1 where "d1 = map ((!) dat) order"
  have a: "vec_built shp inds = \<lparr>vec_row = sel inds1 msk, vec_order = order,
      vec_inds = nonzero_mask msk, vec_shape = shp\<rparr>"
    by (simp add: vec_built_def Let_def order_def inds1_def msk_def)
  have "length inds1 \<noteq> 0" using ne by (simp add: inds1_def order_def)
  then have lm: "length msk = length inds1" by (simp add: msk_def)
  have f: "fancy dat order = Inr d1"
    unfolding d1_def by (rule fancy_Inr) (simp add: order_def ld)
  have rd: "reduceat d1 (nonzero_mask msk) = Inr (reduceat_segments d1 (nonzero_mask msk))"
    by (rule reduceat_Inr) (use set_nonzero_mask[of msk] in \<open>simp add: lm d1_def inds1_def\<close>)
  have rows: "list_all (\<lambda>r. r < shp) (sel inds1 msk)"
    using set_sel[of inds1 msk] r by (auto simp: list_all_iff inds1_def order_def)
  have len: "length (reduceat_segments d1 (nonzero_mask msk)) = length (sel inds1 msk)"
    using lm by (simp add: length_nonzero_mask length_sel)
  show ?thesis
    unfolding VectorAssembler_call_def a using f rd rows len by simp
qed

lemma sequence_err_map_Inr: "sequence_err (map Inr xs) = Inr xs"
  by (induction xs) simp_all

lemma sequence_err_Inr_D: "sequence_err rs = Inr xs \<Longrightarrow> rs = map Inr xs"
proof (induction rs arbitrary: xs)
  case Nil then show ?case by simp
next
  case (Cons r rs)
  show ?case
  proof (cases r)
    case (Inl e) with Cons.prems show ?thesis by simp
  next
    case (Inr x)
    with Cons.prems obtain ys where ys: "sequence_err rs = Inr ys" and xs: "xs = x # ys"
      by (cases "sequence_err rs") auto
    from Cons.IH[OF ys] Inr xs show ?thesis by simp
  qed
qed

lemma fancy_Inr_iff: "fancy a idx = Inr r \<longleftrightarrow> set idx \<subseteq> {0..<length a} \<and> r = map ((!) a) idx"
  by (auto simp: fancy_def list_all_iff)

lemma list3: "length xs = 3 \<Longrightarrow> \<exists>a b c. xs = [a, b, c]"
  by (auto simp: numeral_3_eq_3 length_Suc_conv)

lemma COOTensorIntegrand_init_Inr:
  assumes "COOTensorIntegrand_init shp idx vals = Inr t"
  shows "\<exists>s0 s1 s2 i j k.
      shp = [s0, s1, s2] \<and> coo_shape t = shp \<and> coo_indices t = [i, j, k]
    \<and> coo_data t \<noteq> []
    \<and> length i = length (coo_data t) \<and> length j = length (coo_data t)
    \<and> length k = length (coo_data t)
    \<and> (\<forall>x\<in>set i. x < s0) \<and> (\<forall>x\<in>set j. x < s1) \<and> (\<forall>x\<in>set k. x < s2)
    \<and> coo_assemblers t = [([1], CSR (csr_built (s0, s2) i k)), ([2], CSR (csr_built (s0, s1) i j)),
                          ([1, 2], Vec (vec_built s0 i))]"
proof -
  have l3: "length shp = 3"
    using assms by (cases "length shp = 3") (simp_all add: COOTensorIntegrand_init_def)
  have li: "length idx = 3"
    using assms l3 by (cases "length idx = 3") (simp_all add: COOTensorIntegrand_init_def)
  from list3[OF l3] obtain s0 s1 s2 where shp: "shp = [s0, s1, s2]" by blast
  from list3[OF li] obtain a0 a1 a2 where idx: "idx = [a0, a1, a2]" by blast
  define nz where "nz = nonzero vals"
  note d = COOTensorIntegrand_init_def Let_def nz_def[symmetric]
  obtain inds where sq: "sequence_err (map (\<lambda>arg. fancy arg nz) idx) = Inr inds"
    using assms l3 li by (cases "sequence_err (map (\<lambda>arg. fancy arg nz) idx)") (simp_all add: d)
  obtain dat where fd: "fancy vals nz = Inr dat"
    using assms l3 li sq by (cases "fancy vals nz") (simp_all add: d)
  obtain fits where ft: "fits_int32 inds = Inr fits"
    using assms l3 li sq fd by (cases "fits_int32 inds") (simp_all add: d)
  obtain a1' where c1: "CSRAssembler_init (shp ! 0, shp ! 2) (inds ! 0) (inds ! 2) = Inr a1'"
    using assms l3 li sq fd ft
    by (cases "CSRAssembler_init (shp ! 0, shp ! 2) (inds ! 0) (inds ! 2)") (simp_all add: d)
  obtain a2' where c2: "CSRAssembler_init (shp ! 0, shp ! 1) (inds ! 0) (inds ! 1) = Inr a2'"
    using assms l3 li sq fd ft c1
    by (cases "CSRAssembler_init (shp ! 0, shp ! 1) (inds ! 0) (inds ! 1)") (simp_all add: d)
  obtain a12 where v: "VectorAssembler_init (shp ! 0) (inds ! 0) = Inr a12"
    using assms l3 li sq fd ft c1 c2
    by (cases "VectorAssembler_init (shp ! 0) (inds ! 0)") (simp_all add: d)
  have t: "t = \<lparr>coo_shape = shp, coo_ndim = Some (length shp), coo_data = dat,
             coo_indices = inds, coo_idx_dtype = (if fits then int32 else int64),
             coo_assemblers = [([1], CSR a1'), ([2], CSR a2'), ([1, 2], Vec a12)],
             coo_properties = Some []\<rparr>"
    using assms l3 li sq fd ft c1 c2 v by (simp add: d)
  from sequence_err_Inr_D[OF sq] idx obtain i j k where inds: "inds = [i, j, k]"
    and i: "fancy a0 nz = Inr i" and j: "fancy a1 nz = Inr j" and k: "fancy a2 nz = Inr k"
    by (cases inds; simp) (auto simp: map_eq_Cons_conv)
  have len: "length i = length nz" "length j = length nz" "length k = length nz"
    "length dat = length nz"
    using i j k fd by (auto simp: fancy_Inr_iff)
  from CSRAssembler_init_Inr[OF c1] CSRAssembler_init_Inr[OF c2] VectorAssembler_init_Inr[OF v]
  have facts: "i \<noteq> []" "\<forall>x\<in>set i. x < s0" "\<forall>x\<in>set k. x < s2" "\<forall>x\<in>set j. x < s1"
    "a1' = csr_built (s0, s2) i k" "a2' = csr_built (s0, s1) i j" "a12 = vec_built s0 i"
    by (simp_all add: shp inds)
  have "dat \<noteq> []" using facts(1) len by auto
  with facts show ?thesis using t shp inds len by simp
qed

lemma coo_scale_ok:
  assumes "\<forall>n<length c. \<forall>v. c ! n = Some v \<longrightarrow>
      i + n < length inds \<and> length (inds ! (i + n)) = length dat
      \<and> (\<forall>x\<in>set (inds ! (i + n)). x < length v)"
  shows "\<exists>dat'. coo_scale inds i c dat = Inr dat' \<and> length dat' = length dat"
  using assms
proof (induction c arbitrary: i dat)
  case Nil then show ?case by simp
next
  case (Cons e c)
  have step: "\<forall>n<length c. \<forall>v. c ! n = Some v \<longrightarrow>
      Suc i + n < length inds \<and> length (inds ! (Suc i + n)) = length dat'
      \<and> (\<forall>x\<in>set (inds ! (Suc i + n)). x < length v)"
    if that: "length dat' = length dat" for dat'
  proof (intro allI impI)
    fix n v assume n: "n < length c" and cv: "c ! n = Some v"
    from Cons.prems[rule_format, of "Suc n" v] n cv that
    show "Suc i + n < length inds \<and> length (inds ! (Suc i + n)) = length dat'
      \<and> (\<forall>x\<in>set (inds ! (Suc i + n)). x < length v)"
      by simp
  qed
  show ?case
  proof (cases e)
    case None
    then show ?thesis using Cons.IH[OF step[of dat]] by simp
  next
    case (Some v)
    from Cons.prems[rule_format, of 0 v] Some
    have 0: "i < length inds" "length (inds ! i) = length dat" "\<forall>x\<in>set (inds ! i). x < length v"
      by simp_all
    have f: "fancy v (inds ! i) = Inr (map ((!) v) (inds ! i))"
      by (rule fancy_Inr) (use 0(3) in auto)
    let ?d = "map (\<lambda>(d, x). d * x) (zip dat (map ((!) v) (inds ! i)))"
    have ld: "length ?d = length dat" using 0(2) by simp
    from Cons.IH[OF step[OF ld]] obtain dat' where
      "coo_scale inds (Suc i) c ?d = Inr dat'" "length dat' = length dat"
      using ld by auto
    then show ?thesis using Some 0 f by simp
  qed
qed

lemma all_None_axes: "all_None c \<Longrightarrow> axes_of c = []"
  by (auto simp: all_None_def axes_of_def list_all_length filter_empty_conv)

lemma make_Spmatrix: "make subclasses (Spmatrix A) = Inr (ScipyArrayIntegrand A [])"
  by (simp add: make_def acceptable_def get_subclass_def subclasses_def)

lemma make_Ndarray: "make subclasses (Ndarray a) = Inr (NumpyArrayIntegrand a [])"
  by (simp add: make_def acceptable_def get_subclass_def subclasses_def)

lemma make_PyFloat: "make subclasses (PyFloat x) = Inr (NumpyArrayIntegrand (Scalar x) [])"
  by (simp add: make_def acceptable_def get_subclass_def subclasses_def)

lemma COO_contract_no_assembler:
  assumes "map_of (coo_assemblers t) (axes_of c) = None" "axes_of c \<noteq> [0, 1, 2]" "axes_of c \<noteq> []"
  shows "\<exists>e. COO_contract t c = Inl e"
    and "coo_scale (coo_indices t) 0 c (coo_data t) = Inr dat \<Longrightarrow> COO_contract t c = Inl KeyError"
proof -
  have n: "\<not> all_None c" using assms(3) all_None_axes by blast
  show "\<exists>e. COO_contract t c = Inl e"
    using assms(1,2) n
    by (cases "coo_scale (coo_indices t) 0 c (coo_data t)")
       (simp_all add: COO_contract_def COO_contract_raw_def)
  show "COO_contract t c = Inl KeyError" if "coo_scale (coo_indices t) 0 c (coo_data t) = Inr dat"
    using assms(1,2) n that by (simp add: COO_contract_def COO_contract_raw_def)
qed

lemma valid_contraction3:
  assumes "valid_contraction [s0, s1, s2] c"
  shows "\<exists>c0 c1 c2. c = [c0, c1, c2]
     \<and> (\<forall>v. c0 = Some v \<longrightarrow> length v = s0)
     \<and> (\<forall>v. c1 = Some v \<longrightarrow> length v = s1)
     \<and> (\<forall>v. c2 = Some v \<longrightarrow> length v = s2)"
  using assms by (auto simp: valid_contraction_def list_all2_Cons1)

lemma axes_of3:
  "axes_of [c0, c1, c2]
   = (if c0 \<noteq> None then [0] else []) @ (if c1 \<noteq> None then [1] else [])
     @ (if c2 \<noteq> None then [2] else [])"
  by (simp add: axes_of_def upt_rec)

lemma coo_scale_valid:
  assumes c: "c = [c0, c1, c2]"
    and v: "\<forall>v. c0 = Some v \<longrightarrow> length v = s0" "\<forall>v. c1 = Some v \<longrightarrow> length v = s1"
      "\<forall>v. c2 = Some v \<longrightarrow> length v = s2"
    and len: "length i = length dat" "length j = length dat" "length k = length dat"
    and r: "\<forall>x\<in>set i. x < s0" "\<forall>x\<in>set j. x < s1" "\<forall>x\<in>set k. x < s2"
  shows "\<exists>dat'. coo_scale [i, j, k] 0 c dat = Inr dat' \<and> length dat' = length dat"
proof (rule coo_scale_ok, intro allI impI)
  fix n w assume n: "n < length c" and cw: "c ! n = Some w"
  from n c have "n = 0 \<or> n = 1 \<or> n = 2" by auto
  then show "0 + n < length [i, j, k] \<and> length ([i, j, k] ! (0 + n)) = length dat
      \<and> (\<forall>x\<in>set ([i, j, k] ! (0 + n)). x < length w)"
    using cw c v len r by auto
qed

lemma example_init:
  "\<exists>t. COOTensorIntegrand_init [2, 2, 2] [[0, 0, 1], [0, 0, 1], [0, 0, 1]] [1, 2, 3] = Inr t"
proof -
  let ?a = "\<lparr>csr_row = [0, 1], csr_col = [0, 1], csr_order = [0, 1, 2],
             csr_inds = [0, 2], csr_shape = (2, 2)\<rparr>"
  have "COOTensorIntegrand_init [2, 2, 2] [[0, 0, 1], [0, 0, 1], [0, 0, 1]] [1, 2, 3]
        = Inr \<lparr>coo_shape = [2, 2, 2], coo_ndim = Some 3, coo_data = [1, 2, 3],
             coo_indices = [[0, 0, 1], [0, 0, 1], [0, 0, 1]], coo_idx_dtype = int32,
             coo_assemblers =
               [([1], CSR ?a), ([2], CSR ?a),
                ([1, 2], Vec \<lparr>vec_row = [0, 1], vec_order = [0, 1, 2], vec_inds = [0, 2],
                              vec_shape = 2\<rparr>)],
             coo_properties = Some []\<rparr>"
    by code_simp
  then show ?thesis by blast
qed

text \<open>
  C5. For a tensor that \<^verbatim>\<open>COOTensorIntegrand.__init__\<close> has built: a contraction whose
  vectors sit exactly on the axes \<open>{0}\<close>, \<open>{0, 1}\<close> or \<open>{0, 2}\<close> fails, and when its vectors
  have the lengths of their axes the failure is the \<^verbatim>\<open>KeyError\<close> of the assembler
  dictionary; with vectors of the right lengths the patterns \<open>{1}\<close> and \<open>{2}\<close> return a
  sparse-matrix Integrand and the pattern \<open>{1, 2}\<close> returns a dense vector Integrand.
\<close>

theorem COO_contract_patterns:
  assumes init: "COOTensorIntegrand_init shp idx vals = Inr t"
  shows "(axes_of c \<in> {[0], [0, 1], [0, 2]} \<longrightarrow>
            (\<exists>e. COO_contract t c = Inl e)
          \<and> (valid_contraction shp c \<longrightarrow> COO_contract t c = Inl KeyError))
       \<and> (valid_contraction shp c \<longrightarrow> axes_of c \<in> {[1], [2]} \<longrightarrow>
            (\<exists>A. COO_contract t c = Inr (ScipyArrayIntegrand A [])))
       \<and> (valid_contraction shp c \<longrightarrow> axes_of c = [1, 2] \<longrightarrow>
            (\<exists>v. COO_contract t c = Inr (NumpyArrayIntegrand (vector v) [])))"
proof -
  from COOTensorIntegrand_init_Inr[OF init] obtain s0 s1 s2 i j k where
    shp: "shp = [s0, s1, s2]" and inds: "coo_indices t = [i, j, k]"
    and ne: "coo_data t \<noteq> []"
    and len: "length i = length (coo_data t)" "length j = length (coo_data t)"
      "length k = length (coo_data t)"
    and r: "\<forall>x\<in>set i. x < s0" "\<forall>x\<in>set j. x < s1" "\<forall>x\<in>set k. x < s2"
    and ass: "coo_assemblers t = [([1], CSR (csr_built (s0, s2) i k)),
        ([2], CSR (csr_built (s0, s1) i j)), ([1, 2], Vec (vec_built s0 i))]"
    by blast
  have ine: "i \<noteq> []" using ne len by auto
  have scale: "\<exists>dat'. coo_scale (coo_indices t) 0 c (coo_data t) = Inr dat'
      \<and> length dat' = length (coo_data t)" if "valid_contraction shp c"
  proof -
    from valid_contraction3[OF that[unfolded shp]] obtain c0 c1 c2 where
      "c = [c0, c1, c2]" "\<forall>v. c0 = Some v \<longrightarrow> length v = s0"
      "\<forall>v. c1 = Some v \<longrightarrow> length v = s1" "\<forall>v. c2 = Some v \<longrightarrow> length v = s2"
      by blast
    from coo_scale_valid[OF this len r] show ?thesis by (simp add: inds)
  qed
  have bad: "(\<exists>e. COO_contract t c = Inl e)
      \<and> (valid_contraction shp c \<longrightarrow> COO_contract t c = Inl KeyError)"
    if a: "axes_of c \<in> {[0], [0, 1], [0, 2]}"
  proof -
    have m: "map_of (coo_assemblers t) (axes_of c) = None" using a ass by auto
    have n: "axes_of c \<noteq> [0, 1, 2]" "axes_of c \<noteq> []" using a by auto
    show ?thesis
      using COO_contract_no_assembler[OF m n] scale by blast
  qed
  have csr: "\<exists>A. COO_contract t c = Inr (ScipyArrayIntegrand A [])"
    if v: "valid_contraction shp c" and a: "axes_of c \<in> {[1], [2]}"
  proof -
    from scale[OF v] obtain dat' where sc: "coo_scale (coo_indices t) 0 c (coo_data t) = Inr dat'"
      and ld: "length dat' = length (coo_data t)" by blast
    have n: "\<not> all_None c" using a all_None_axes by fastforce
    from a obtain row col sh where
      m: "map_of (coo_assemblers t) (axes_of c) = Some (CSR (csr_built sh i col))"
      and lc: "length i = length col"
      using ass len by auto
    from CSRAssembler_call_built[OF ine lc, of dat' sh] ld len obtain A where
      "CSRAssembler_call (csr_built sh i col) dat' = Inr A" by auto
    then have "COO_contract t c = Inr (ScipyArrayIntegrand A [])"
      using a n sc m
      by (auto simp: COO_contract_def COO_contract_raw_def call_assembler_def map_err_def
          make_Spmatrix)
    then show ?thesis by blast
  qed
  have vec: "\<exists>w. COO_contract t c = Inr (NumpyArrayIntegrand (vector w) [])"
    if v: "valid_contraction shp c" and a: "axes_of c = [1, 2]"
  proof -
    from scale[OF v] obtain dat' where sc: "coo_scale (coo_indices t) 0 c (coo_data t) = Inr dat'"
      and ld: "length dat' = length (coo_data t)" by blast
    have n: "\<not> all_None c" using a all_None_axes by fastforce
    have m: "map_of (coo_assemblers t) (axes_of c) = Some (Vec (vec_built s0 i))"
      using ass a by simp
    from VectorAssembler_call_built[OF ine r(1), of dat'] ld len obtain w where
      "VectorAssembler_call (vec_built s0 i) dat' = Inr w" by auto
    then have "COO_contract t c = Inr (NumpyArrayIntegrand (vector w) [])"
      using a n sc m
      by (simp add: COO_contract_def COO_contract_raw_def call_assembler_def map_err_def
          make_Ndarray)
    then show ?thesis by blast
  qed
  from bad csr vec show ?thesis by blast
qed

theorem COO_contract_patterns_witness:
  "\<exists>t. COOTensorIntegrand_init [2, 2, 2] [[0, 0, 1], [0, 0, 1], [0, 0, 1]] [1, 2, 3] = Inr t
     \<and> COO_contract t [Some [1, 1], None, None] = Inl KeyError
     \<and> COO_contract t [Some [1, 1], Some [1, 1], None] = Inl KeyError
     \<and> COO_contract t [Some [1, 1], None, Some [1, 1]] = Inl KeyError
     \<and> (\<exists>A. COO_contract t [None, Some [1, 1], None] = Inr (ScipyArrayIntegrand A []))
     \<and> (\<exists>A. COO_contract t [None, None, Some [1, 1]] = Inr (ScipyArrayIntegrand A []))
     \<and> (\<exists>v. COO_contract t [None, Some [1, 1], Some [1, 1]]
               = Inr (NumpyArrayIntegrand (vector v) []))"
proof -
  obtain t where
    init: "COOTensorIntegrand_init [2, 2, 2] [[0, 0, 1], [0, 0, 1], [0, 0, 1]] [1, 2, 3] = Inr t"
    using example_init by blast
  have v: "valid_contraction [2, 2, 2] [Some [1, 1], None, None]"
    "valid_contraction [2, 2, 2] [Some [1, 1], Some [1, 1], None]"
    "valid_contraction [2, 2, 2] [Some [1, 1], None, Some [1, 1]]"
    "valid_contraction [2, 2, 2] [None, Some [1, 1], None]"
    "valid_contraction [2, 2, 2] [None, None, Some [1, 1]]"
    "valid_contraction [2, 2, 2] [None, Some [1, 1], Some [1, 1]]"
    by (simp_all add: valid_contraction_def)
  show ?thesis
    using init v
      COO_contract_patterns [OF init, of "[Some [1, 1], None, None]"]
      COO_contract_patterns [OF init, of "[Some [1, 1], Some [1, 1], None]"]
      COO_contract_patterns [OF init, of "[Some [1, 1], None, Some [1, 1]]"]
      COO_contract_patterns [OF init, of "[None, Some [1, 1], None]"]
      COO_contract_patterns [OF init, of "[None, None, Some [1, 1]]"]
      COO_contract_patterns [OF init, of "[None, Some [1, 1], Some [1, 1]]"]
    by (simp add: axes_of3)
qed

subsection \<open>The sparse-matrix wrapper against the dense wrapper\<close>

lemma sum_list_delta:
  fixes g :: "nat \<Rightarrow> real"
  assumes "c < N"
  shows "sum_list (map (\<lambda>j. if c = j then g j else 0) [0..<N]) = g c"
proof -
  have "sum_list (map (\<lambda>j. if c = j then g j else 0) [0..<N])
        = sum (\<lambda>j. if c = j then g j else 0) {0..<N}"
    by (simp add: sum_list_distinct_conv_sum_set)
  also have "\<dots> = g c" using assms by simp
  finally show ?thesis .
qed

lemma sum_list_add_pointwise:
  fixes f g :: "'a \<Rightarrow> real"
  shows "sum_list (map (\<lambda>x. f x + g x) xs) = sum_list (map f xs) + sum_list (map g xs)"
  by (induction xs) (simp_all add: algebra_simps)

lemma row_dot:
  fixes v :: "real list"
  assumes "\<forall>e\<in>set es. fst e < N"
  shows "sum_list (map (\<lambda>(c, x). x * v ! c) es)
         = sum_list (map (\<lambda>j. sum_list (map snd (filter (\<lambda>e. fst e = j) es)) * v ! j) [0..<N])"
  using assms
proof (induction es)
  case Nil then show ?case by simp
next
  case (Cons e es)
  obtain c x where e: "e = (c, x)" by (cases e)
  have c: "c < N" using Cons.prems e by simp
  have "sum_list (map (\<lambda>j. sum_list (map snd (filter (\<lambda>e. fst e = j) (e # es))) * v ! j) [0..<N])
      = sum_list (map (\<lambda>j. (if c = j then x * v ! j else 0)
            + sum_list (map snd (filter (\<lambda>e. fst e = j) es)) * v ! j) [0..<N])"
    by (rule arg_cong[where f = sum_list], rule map_cong) (auto simp: e algebra_simps)
  also have "\<dots> = x * v ! c
      + sum_list (map (\<lambda>j. sum_list (map snd (filter (\<lambda>e. fst e = j) es)) * v ! j) [0..<N])"
    by (simp only: sum_list_add_pointwise sum_list_delta[OF c])
  finally show ?case using Cons e by simp
qed

lemma csr_dot_entries:
  assumes "csr_cols_ok A" "length v = snd (shape A)"
  shows "csr_dot A v
         = Inr (map (\<lambda>i. sum_list (map (\<lambda>j. csr_entry A i j * v ! j) [0..<snd (shape A)]))
                  [0..<fst (shape A)])"
proof -
  have "sum_list (map (\<lambda>(c, x). x * v ! c) (csr_row_entries A i))
        = sum_list (map (\<lambda>j. csr_entry A i j * v ! j) [0..<snd (shape A)])"
    if "i < fst (shape A)" for i
    unfolding csr_entry_def
    by (rule row_dot) (use assms(1) that in \<open>auto simp: csr_cols_ok_def list_all_iff\<close>)
  then show ?thesis using assms(2) by (simp add: csr_dot_def)
qed

lemma vec_dot_map:
  assumes "length u = n"
  shows "vec_dot u (map f [0..<n]) = Inr (sum_list (map (\<lambda>i. u ! i * f i) [0..<n]))"
proof -
  have "u = map ((!) u) [0..<n]" using assms by (intro nth_equalityI) simp_all
  then have "zip u (map f [0..<n]) = map (\<lambda>i. (u ! i, f i)) [0..<n]"
    by (metis zip_map_same)
  then show ?thesis using assms by (simp add: vec_dot_def comp_def)
qed

text \<open>
  C10. \<^verbatim>\<open>ScipyArrayIntegrand.get\<close> with a vector for each axis (of the lengths of the
  axes) does not fail: it returns the scalar \<open>ca\<^sup>T A cb\<close>, while \<^verbatim>\<open>contract\<close> rejects the
  same contraction.
\<close>

theorem Scipy_get_two_vectors:
  assumes "csr_cols_ok A" "length ca = fst (shape A)" "length cb = snd (shape A)"
  shows "integrand_get (ScipyArrayIntegrand A ps) [Some ca, Some cb] = Inr (PyFloat (bilinear A ca cb))
       \<and> integrand_contract (ScipyArrayIntegrand A ps) [Some ca, Some cb] = Inl AssertionError"
proof -
  have "integrand_get (ScipyArrayIntegrand A ps) [Some ca, Some cb]
        = Inr (PyFloat (sum_list (map (\<lambda>i. ca ! i
             * sum_list (map (\<lambda>j. csr_entry A i j * cb ! j) [0..<snd (shape A)]))
             [0..<fst (shape A)])))"
    using csr_dot_entries[OF assms(1,3)] vec_dot_map[OF assms(2)]
    by (simp add: Scipy_get_def all_None_def map_err_def)
  also have "\<dots> = Inr (PyFloat (bilinear A ca cb))"
    by (simp add: bilinear_def sum_list_const_mult algebra_simps)
  finally show ?thesis by (simp add: Scipy_contract_def)
qed

theorem Scipy_get_two_vectors_witness:
  "integrand_get
     (ScipyArrayIntegrand \<lparr>data = [1, 2, 3], indices = [0, 1, 1], indptr = [0, 2, 3], shape = (2, 2)\<rparr> [])
     [Some [1, 10], Some [1, 100]] = Inr (PyFloat 3201)
   \<and> integrand_contract
     (ScipyArrayIntegrand \<lparr>data = [1, 2, 3], indices = [0, 1, 1], indptr = [0, 2, 3], shape = (2, 2)\<rparr> [])
     [Some [1, 10], Some [1, 100]] = Inl AssertionError"
proof -
  let ?A = "\<lparr>data = [1, 2, 3], indices = [0, 1, 1], indptr = [0, 2, 3], shape = (2, 2)\<rparr>"
  have ok: "csr_cols_ok ?A" by code_simp
  have la: "length [1, 10 :: real] = fst (shape ?A)" by simp
  have lb: "length [1, 100 :: real] = snd (shape ?A)" by simp
  have b: "bilinear ?A [1, 10] [1, 100] = 3201" by code_simp
  show ?thesis using Scipy_get_two_vectors [OF ok la lb, of "[]"] b by simp
qed





lemma shape_vector [simp]: "shape_of (vector v) = [length v]"
  by (cases v) (simp_all add: vector_def)





























subsection \<open>The type of the stored index arrays\<close>

lemma fold_max_le: "fold max xs (a::nat) \<le> m \<longleftrightarrow> a \<le> m \<and> (\<forall>x\<in>set xs. x \<le> m)"
  by (induction xs arbitrary: a) auto

lemma max_coordinate_le: "max_coordinate inds \<le> m \<longleftrightarrow> (\<forall>i\<in>set inds. \<forall>x\<in>set i. x \<le> m)"
  by (auto simp: max_coordinate_def fold_max_le)

lemma fits_int32_nonempty:
  assumes "\<forall>i\<in>set inds. i \<noteq> []"
  shows "fits_int32 inds = Inr (\<forall>i\<in>set inds. \<forall>x\<in>set i. int x \<le> int32_max)"
  using assms
proof (induction inds)
  case Nil then show ?case by simp
next
  case (Cons i inds)
  then obtain x xs where i: "i = x # xs" by (cases i) auto
  have m: "np_max i = Inr (fold max xs x)" by (simp add: np_max_def i)
  have "int (fold max xs x) \<le> int32_max \<longleftrightarrow> (\<forall>y\<in>set i. int y \<le> int32_max)"
    using fold_max_le[of xs x "nat int32_max"] by (auto simp: i int32_max_def)
  then show ?case using Cons m by auto
qed

lemma COOTensorIntegrand_init_dtype:
  assumes "COOTensorIntegrand_init shp idx vals = Inr t"
  shows "\<exists>fits. fits_int32 (coo_indices t) = Inr fits
           \<and> coo_idx_dtype t = (if fits then int32 else int64)"
proof -
  have l3: "length shp = 3"
    using assms by (cases "length shp = 3") (simp_all add: COOTensorIntegrand_init_def)
  have li: "length idx = 3"
    using assms l3 by (cases "length idx = 3") (simp_all add: COOTensorIntegrand_init_def)
  define nz where "nz = nonzero vals"
  note d = COOTensorIntegrand_init_def Let_def nz_def[symmetric]
  obtain inds where sq: "sequence_err (map (\<lambda>arg. fancy arg nz) idx) = Inr inds"
    using assms l3 li by (cases "sequence_err (map (\<lambda>arg. fancy arg nz) idx)") (simp_all add: d)
  obtain dat where fd: "fancy vals nz = Inr dat"
    using assms l3 li sq by (cases "fancy vals nz") (simp_all add: d)
  obtain fits where ft: "fits_int32 inds = Inr fits"
    using assms l3 li sq fd by (cases "fits_int32 inds") (simp_all add: d)
  obtain a1' where c1: "CSRAssembler_init (shp ! 0, shp ! 2) (inds ! 0) (inds ! 2) = Inr a1'"
    using assms l3 li sq fd ft
    by (cases "CSRAssembler_init (shp ! 0, shp ! 2) (inds ! 0) (inds ! 2)") (simp_all add: d)
  obtain a2' where c2: "CSRAssembler_init (shp ! 0, shp ! 1) (inds ! 0) (inds ! 1) = Inr a2'"
    using assms l3 li sq fd ft c1
    by (cases "CSRAssembler_init (shp ! 0, shp ! 1) (inds ! 0) (inds ! 1)") (simp_all add: d)
  obtain a12 where v: "VectorAssembler_init (shp ! 0) (inds ! 0) = Inr a12"
    using assms l3 li sq fd ft c1 c2
    by (cases "VectorAssembler_init (shp ! 0) (inds ! 0)") (simp_all add: d)
  have "coo_indices t = inds \<and> coo_idx_dtype t = (if fits then int32 else int64)"
    using assms l3 li sq fd ft c1 c2 v by (auto simp add: d)
  with ft show ?thesis by auto
qed

text \<open>
  C8, as amended. The constructor chooses between two types only: the index arrays are
  \<^verbatim>\<open>int32\<close> when the largest stored coordinate is at most \<open>2^31 - 1\<close> and
  \<^verbatim>\<open>int64\<close> otherwise. For the example tensor, whose largest coordinate is 1, the
  smallest signed type that fits is \<^verbatim>\<open>int8\<close> and the constructor stores
  \<^verbatim>\<open>int32\<close>: the counterexample to the claim.
\<close>

theorem index_dtype_int32_or_int64:
  assumes "COOTensorIntegrand_init shp idx vals = Inr t"
  shows "coo_idx_dtype t
         = (if int (max_coordinate (coo_indices t)) \<le> int32_max then int32 else int64)"
proof -
  from COOTensorIntegrand_init_Inr[OF assms] obtain i j k where
    inds: "coo_indices t = [i, j, k]" and ne: "coo_data t \<noteq> []"
    and len: "length i = length (coo_data t)" "length j = length (coo_data t)"
      "length k = length (coo_data t)"
    by blast
  have "\<forall>a\<in>set (coo_indices t). a \<noteq> []" using inds ne len by auto
  from fits_int32_nonempty[OF this] COOTensorIntegrand_init_dtype[OF assms]
  have "coo_idx_dtype t
        = (if (\<forall>a\<in>set (coo_indices t). \<forall>x\<in>set a. int x \<le> int32_max) then int32 else int64)"
    by auto
  moreover have "(\<forall>a\<in>set (coo_indices t). \<forall>x\<in>set a. int x \<le> int32_max)
      \<longleftrightarrow> int (max_coordinate (coo_indices t)) \<le> int32_max"
    using max_coordinate_le[of "coo_indices t" "nat int32_max"]
    by (auto simp: int32_max_def)
  ultimately show ?thesis by simp
qed

theorem index_dtype_counterexample:
  "map_err (\<lambda>t. (coo_idx_dtype t, smallest_signed_dtype (max_coordinate (coo_indices t))))
     (COOTensorIntegrand_init [2, 2, 2] [[0, 0, 1], [0, 0, 1], [0, 0, 1]] [1, 2, 3])
   = Inr (int32, int8)"
  by code_simp

theorem index_dtype_int32_or_int64_witness:
  "map_err coo_idx_dtype
     (COOTensorIntegrand_init [2, 2, 2] [[0, 0, 1], [0, 0, 1], [0, 0, 1]] [1, 2, 3]) = Inr int32
   \<and> map_err coo_idx_dtype
     (COOTensorIntegrand_init [2147483649, 1, 1] [[2147483648], [0], [0]] [1]) = Inr int64"
proof -
  obtain t where
    init: "COOTensorIntegrand_init [2, 2, 2] [[0, 0, 1], [0, 0, 1], [0, 0, 1]] [1, 2, 3] = Inr t"
    using example_init by blast
  from COOTensorIntegrand_init_Inr[OF init] obtain i j k where
    "coo_indices t = [i, j, k]" "\<forall>x\<in>set i. x < 2" "\<forall>x\<in>set j. x < 2" "\<forall>x\<in>set k. x < 2"
    by auto
  then have "max_coordinate (coo_indices t) \<le> 2"
    by (auto simp: max_coordinate_le intro: less_imp_le)
  then have "int (max_coordinate (coo_indices t)) \<le> int32_max"
    by (simp add: int32_max_def)
  with index_dtype_int32_or_int64 [OF init] init
  have small: "map_err coo_idx_dtype
     (COOTensorIntegrand_init [2, 2, 2] [[0, 0, 1], [0, 0, 1], [0, 0, 1]] [1, 2, 3]) = Inr int32"
    by (simp add: map_err_def)
  note unfold = COOTensorIntegrand_init_def nonzero_def fancy_def np_max_def int32_max_def
    CSRAssembler_init_def VectorAssembler_init_def lexsort_def lexsort1_def bool_index_def
    neq_adj_def nonzero_mask_def Let_def
  have "\<exists>u. COOTensorIntegrand_init [2147483649, 1, 1] [[2147483648], [0], [0]] [1] = Inr u"
    by (simp add: unfold)
  then obtain u where
    init': "COOTensorIntegrand_init [2147483649, 1, 1] [[2147483648], [0], [0]] [1] = Inr u"
    by blast
  have "coo_indices u = [[2147483648], [0], [0]]"
    using init' by (simp add: unfold split: if_splits) auto
  then have "\<not> int (max_coordinate (coo_indices u)) \<le> int32_max"
    by (simp add: max_coordinate_def int32_max_def)
  with index_dtype_int32_or_int64 [OF init'] init'
  have large: "map_err coo_idx_dtype
     (COOTensorIntegrand_init [2147483649, 1, 1] [[2147483648], [0], [0]] [1]) = Inr int64"
    by (simp add: map_err_def)
  from small large show ?thesis by simp
qed

subsection \<open>Writing a tensor and reading it back\<close>

text \<open>
  An assembler that was written to an empty group is read back unchanged, and the names
  of the three assembler groups are read back as the axis tuples they were made from.
  So a tensor \<open>x\<close> built by the constructor is read back with the same shape, data,
  indices and assemblers, but without \<^verbatim>\<open>ndim\<close> and \<^verbatim>\<open>_properties\<close>; \<^verbatim>\<open>get\<close> and
  \<^verbatim>\<open>contract\<close> with a vector use neither, and return the same on both objects.
\<close>


lemma CSRAssembler_read_write: "CSRAssembler_read (CSRAssembler_write a empty_group) = Inr a"
  by (simp add: CSRAssembler_read_def CSRAssembler_write_def read_ints_def read_shape_def
      lookup_def to_dataset_def set_attr_def empty_group_def)

lemma VectorAssembler_read_write:
  "VectorAssembler_read (VectorAssembler_write a empty_group) = Inr a"
  by (simp add: VectorAssembler_read_def VectorAssembler_write_def read_ints_def read_shape_def
      lookup_def to_dataset_def set_attr_def empty_group_def)

lemma assembler_type:
  "lookup (attrs (CSRAssembler_write a empty_group)) ''type'' = Inr (StrAttr ''CSRAssembler'')"
  "lookup (attrs (VectorAssembler_write v empty_group)) ''type'' = Inr (StrAttr ''VectorAssembler'')"
  by (simp_all add: CSRAssembler_write_def VectorAssembler_write_def lookup_def to_dataset_def
      set_attr_def empty_group_def)

lemma assembler_read_write: "assembler_read (assembler_write a empty_group) = Inr a"
  by (cases a)
     (simp_all add: assembler_read_def assembler_type CSRAssembler_read_write
        VectorAssembler_read_write map_err_def)

lemma key_name_1:
  "sequence_err (map py_int (split_comma (join '','' (map str_nat [1])))) = Inr [1]"
  by code_simp

lemma key_name_2:
  "sequence_err (map py_int (split_comma (join '','' (map str_nat [2])))) = Inr [2]"
  by code_simp

lemma key_name_12:
  "sequence_err (map py_int (split_comma (join '','' (map str_nat [1, 2])))) = Inr [1, 2]"
  by code_simp

lemma key_names_distinct:
  "join '','' (map str_nat [1]) \<noteq> join '','' (map str_nat [2])"
  "join '','' (map str_nat [1]) \<noteq> join '','' (map str_nat [1, 2])"
  "join '','' (map str_nat [2]) \<noteq> join '','' (map str_nat [1, 2])"
  by code_simp+

lemma roundtrip_built:
  assumes "COOTensorIntegrand_init shp idx vals = Inr x"
  shows "roundtrip x = Inr (x\<lparr>coo_ndim := None, coo_properties := None\<rparr>)"
proof -
  from COOTensorIntegrand_init_Inr[OF assms] obtain s0 s1 s2 i j k where
    inds: "coo_indices x = [i, j, k]"
    and ass: "coo_assemblers x = [([1], CSR (csr_built (s0, s2) i k)),
        ([2], CSR (csr_built (s0, s1) i j)), ([1, 2], Vec (vec_built s0 i))]"
    by blast
  define n1 where "n1 = join '','' (map str_nat [1])"
  define n2 where "n2 = join '','' (map str_nat [2])"
  define n12 where "n12 = join '','' (map str_nat [1, 2])"
  have ne: "n1 \<noteq> n2" "n1 \<noteq> n12" "n2 \<noteq> n12"
    unfolding n1_def n2_def n12_def by (rule key_names_distinct)+
  have e: "read_assembler_entry (n1, assembler_write a empty_group) = Inr ([1], a)"
    "read_assembler_entry (n2, assembler_write a empty_group) = Inr ([2], a)"
    "read_assembler_entry (n12, assembler_write a empty_group) = Inr ([1, 2], a)" for a
    unfolding n1_def n2_def n12_def
    by (simp_all only: read_assembler_entry_def fst_conv snd_conv key_name_1 key_name_2
        key_name_12 assembler_read_write map_err_def sum.case)
  have w: "write_assembler (key, a) g
           = put_group g (join '','' (map str_nat key))
               (assembler_write a (require_group g (join '','' (map str_nat key))))" for key a g
    by (simp add: write_assembler_def Let_def)
  have asm: "fold write_assembler (coo_assemblers x) empty_group
      = Group [] [] [(n1, assembler_write (CSR (csr_built (s0, s2) i k)) empty_group),
                     (n2, assembler_write (CSR (csr_built (s0, s1) i j)) empty_group),
                     (n12, assembler_write (Vec (vec_built s0 i)) empty_group)]"
    unfolding ass
    using ne
    by (simp only: fold_simps w n1_def[symmetric] n2_def[symmetric] n12_def[symmetric])
       (simp add: put_group_def require_group_def empty_group_def del: assembler_write.simps)
  define AG where "AG = fold write_assembler (coo_assemblers x) (Group [] [] [])"
  have AG': "AG = Group [] [] [(n1, assembler_write (CSR (csr_built (s0, s2) i k)) empty_group),
                     (n2, assembler_write (CSR (csr_built (s0, s1) i j)) empty_group),
                     (n12, assembler_write (Vec (vec_built s0 i)) empty_group)]"
    unfolding AG_def using asm by (simp only: empty_group_def)
  have AG: "map read_assembler_entry (groups AG) = map Inr (coo_assemblers x)"
    unfolding AG' ass by (simp only: group.sel list.map e)
  have "roundtrip x = Inr \<lparr>coo_shape = coo_shape x, coo_ndim = None, coo_data = coo_data x,
      coo_indices = coo_indices x, coo_idx_dtype = coo_idx_dtype x,
      coo_assemblers = coo_assemblers x, coo_properties = None\<rparr>"
    unfolding roundtrip_def COOTensorIntegrand_write_def COOTensorIntegrand_read_def Let_def
    by (simp add: inds lookup_def read_index_def read_shape_def require_group_def put_group_def
        set_attr_def to_dataset_def empty_group_def AG_def[symmetric] AG sequence_err_map_Inr)
  then show ?thesis by simp
qed

lemma COO_contract_raw_fields:
  "\<not> all_None c \<Longrightarrow>
   COO_contract_raw (x\<lparr>coo_ndim := a, coo_properties := b\<rparr>) c = COO_contract_raw x c"
  by (simp add: COO_contract_raw_def cong: sum.case_cong if_cong)

lemma COO_contract_roundtrip:
  "\<not> all_None c \<Longrightarrow>
   COO_contract (x\<lparr>coo_ndim := a, coo_properties := b\<rparr>) c = COO_contract x c"
  by (simp add: COO_contract_def COO_contract_raw_fields)

lemma coo_toarray_fields:
  "coo_toarray (x\<lparr>coo_ndim := a, coo_properties := b\<rparr>) = coo_toarray x"
proof -
  let ?y = "x\<lparr>coo_ndim := a, coo_properties := b\<rparr>"
  have s: "coo_shape ?y = coo_shape x" "coo_indices ?y = coo_indices x"
    "coo_data ?y = coo_data x"
    by simp_all
  show ?thesis unfolding coo_toarray_def s by (rule refl)
qed

lemma COO_get_roundtrip:
  "COO_get (x\<lparr>coo_ndim := a, coo_properties := b\<rparr>) c = COO_get x c"
proof (cases "all_None c")
  case True
  then show ?thesis by (simp add: COO_get_def COO_contract_raw_def coo_toarray_fields)
next
  case False
  then show ?thesis by (simp add: COO_get_def COO_contract_raw_fields)
qed

text \<open>
  C4. The tensor \<open>x\<close> of the end-to-end example, written to an empty group and read back
  as \<open>y\<close>: \<open>x\<close> has \<^verbatim>\<open>ndim = 3\<close> and \<open>y\<close> has no attribute \<^verbatim>\<open>ndim\<close>;
  \<^verbatim>\<open>x.prop('a', a=1.0)\<close> returns \<open>1\<close> and \<^verbatim>\<open>y.prop('a', a=1.0)\<close> raises
  \<^verbatim>\<open>AttributeError\<close>. The object read back is therefore not indistinguishable from the
  original: \<^verbatim>\<open>read\<close> restores no metadata, where \<^verbatim>\<open>ThinWrapperIntegrand.write\<close> and
  \<^verbatim>\<open>ThinWrapperIntegrand.read\<close> call \<^verbatim>\<open>write_props\<close> and \<^verbatim>\<open>read_props\<close>.
\<close>

theorem roundtrip_drops_properties:
  "\<exists>x y. COOTensorIntegrand_init [2, 2, 2] [[0, 0, 1], [0, 0, 1], [0, 0, 1]] [1, 2, 3] = Inr x
     \<and> roundtrip x = Inr y
     \<and> coo_ndim x = Some 3 \<and> coo_ndim y = None
     \<and> COO_prop x [''a''] [(''a'', 1)] = Inr (PValue 1)
     \<and> COO_prop y [''a''] [(''a'', 1)] = Inl AttributeError"
proof -
  let ?a = "\<lparr>csr_row = [0, 1], csr_col = [0, 1], csr_order = [0, 1, 2],
             csr_inds = [0, 2], csr_shape = (2, 2)\<rparr>"
  let ?x = "\<lparr>coo_shape = [2, 2, 2], coo_ndim = Some 3, coo_data = [1, 2, 3],
             coo_indices = [[0, 0, 1], [0, 0, 1], [0, 0, 1]], coo_idx_dtype = int32,
             coo_assemblers =
               [([1], CSR ?a), ([2], CSR ?a),
                ([1, 2], Vec \<lparr>vec_row = [0, 1], vec_order = [0, 1, 2], vec_inds = [0, 2],
                              vec_shape = 2\<rparr>)],
             coo_properties = Some []\<rparr>"
  have 1: "COOTensorIntegrand_init [2, 2, 2] [[0, 0, 1], [0, 0, 1], [0, 0, 1]] [1, 2, 3] = Inr ?x"
    by code_simp
  have 2: "roundtrip ?x = Inr (?x\<lparr>coo_ndim := None, coo_properties := None\<rparr>)"
    by code_simp
  have 3: "COO_prop ?x [''a''] [(''a'', 1)] = Inr (PValue 1)"
    by code_simp
  have 4: "COO_prop (?x\<lparr>coo_ndim := None, coo_properties := None\<rparr>) [''a''] [(''a'', 1)]
           = Inl AttributeError"
    by code_simp
  show ?thesis
    by (intro exI[of _ ?x] exI[of _ "?x\<lparr>coo_ndim := None, coo_properties := None\<rparr>"])
       (simp only: 1 2 3 4, simp)
qed

end
